theory Spec2Isabelle
  imports Complex_Main "HOL-Library.Char_ord" "HOL-Library.List_Lexorder" "HOL-Library.AList"
    "HOL-Library.Log_Nat"
begin

section \<open>Python exceptions\<close>

text \<open>Every exception the modelled code can raise is a value; a function that may raise
  returns \<open>error + 'a\<close> with \<open>Inl\<close> for the exception.\<close>

datatype error = IndexError | ValueError | NameError | AssertionError | KeyError | TypeError

section \<open>Window extraction: \<open>extract_signal_from_fold\<close>\<close>

text \<open>A label event. Only the fields read by \<open>extract_signal_from_fold\<close> are kept.\<close>

record label =
  onset :: int
  word :: string

text \<open>Normalisation of one bound of a Python slice over a sequence of \<open>n\<close> items:
  a negative bound counts from the end, and every bound is clipped into \<open>0..n\<close>.\<close>

definition slice_bound :: "nat \<Rightarrow> int \<Rightarrow> nat" where
  "slice_bound n i = (if i < 0 then nat (max 0 (int n + i)) else min n (nat i))"

text \<open>\<open>signals[left_edge:right_edge, :]\<close>: the rows of the signal matrix between the two
  normalised bounds (no row when the bounds cross).\<close>

definition py_slice :: "'a list \<Rightarrow> int \<Rightarrow> int \<Rightarrow> 'a list" where
  "py_slice xs l r =
     (let n = length xs; a = slice_bound n l; b = slice_bound n r
      in take (b - a) (drop a xs))"

text \<open>\<open>(np.array(stitch_index) < bin_index).nonzero()[0][-1]\<close>: the last position whose
  boundary is strictly below the bin index; indexing the empty position array with
  \<open>-1\<close> raises IndexError.\<close>

definition bin_rank_of :: "int list \<Rightarrow> int \<Rightarrow> error + nat" where
  "bin_rank_of stitch_index bin_index =
     (case filter (\<lambda>i. stitch_index ! i < bin_index) [0..<length stitch_index] of
        [] \<Rightarrow> Inl IndexError
      | r # rs \<Rightarrow> Inr (last (r # rs)))"

text \<open>Reading a Python list at a non-negative position.\<close>

definition py_get :: "'a list \<Rightarrow> nat \<Rightarrow> error + 'a" where
  "py_get xs i = (if i < length xs then Inr (xs ! i) else Inl IndexError)"

text \<open>The segment lookup of the loop body: \<open>bin_start = stitch_index[bin_rank]\<close> and
  \<open>bin_stop = stitch_index[bin_rank + 1]\<close>.\<close>

definition segment_lookup :: "int list \<Rightarrow> int \<Rightarrow> error + (int \<times> int)" where
  "segment_lookup stitch_index bin_index =
     (case bin_rank_of stitch_index bin_index of
        Inl e \<Rightarrow> Inl e
      | Inr bin_rank \<Rightarrow>
          (case py_get stitch_index bin_rank of
             Inl e \<Rightarrow> Inl e
           | Inr bin_start \<Rightarrow>
               (case py_get stitch_index (bin_rank + 1) of
                  Inl e \<Rightarrow> Inl e
                | Inr bin_stop \<Rightarrow> Inr (bin_start, bin_stop))))"

definition left_edge :: "int \<Rightarrow> int \<Rightarrow> label \<Rightarrow> int" where
  "left_edge lag_in_bin_dim half_window lbl = onset lbl div 32 + lag_in_bin_dim - half_window"

definition right_edge :: "int \<Rightarrow> int \<Rightarrow> label \<Rightarrow> int" where
  "right_edge lag_in_bin_dim half_window lbl = onset lbl div 32 + lag_in_bin_dim + half_window"

text \<open>One pass of the loop body for one label: an exception, \<open>continue\<close> (\<open>None\<close>), or
  the window and the word appended to \<open>x\<close> and \<open>w\<close>.\<close>

definition extract_one ::
  "'a list \<Rightarrow> int list \<Rightarrow> int \<Rightarrow> int \<Rightarrow> label \<Rightarrow> error + ('a list \<times> string) option" where
  "extract_one signals stitch_index lag_in_bin_dim half_window lbl =
     (case segment_lookup stitch_index (onset lbl div 32) of
        Inl e \<Rightarrow> Inl e
      | Inr (bin_start, bin_stop) \<Rightarrow>
          if left_edge lag_in_bin_dim half_window lbl < bin_start
             \<or> right_edge lag_in_bin_dim half_window lbl > bin_stop
          then Inr None
          else Inr (Some (py_slice signals (left_edge lag_in_bin_dim half_window lbl)
                            (right_edge lag_in_bin_dim half_window lbl),
                          word lbl)))"

text \<open>The \<open>for label in examples\<close> loop, threading the two accumulators \<open>x\<close> and \<open>w\<close>.\<close>

fun extract_loop ::
  "'a list \<Rightarrow> int list \<Rightarrow> int \<Rightarrow> int \<Rightarrow> label list \<Rightarrow> 'a list list \<times> string list
     \<Rightarrow> error + ('a list list \<times> string list)" where
  "extract_loop signals stitch_index lg hw [] (x, w) = Inr (x, w)"
| "extract_loop signals stitch_index lg hw (lbl # rest) (x, w) =
     (case extract_one signals stitch_index lg hw lbl of
        Inl e \<Rightarrow> Inl e
      | Inr None \<Rightarrow> extract_loop signals stitch_index lg hw rest (x, w)
      | Inr (Some (win, wd)) \<Rightarrow>
          extract_loop signals stitch_index lg hw rest (x @ [win], w @ [wd]))"

text \<open>\<open>np.stack(x, axis=0)\<close>: raises ValueError on an empty list and on windows of
  different shapes. All rows of the signal matrix have the same number of columns, so
  two windows differ in shape exactly when they differ in their number of rows.\<close>

definition np_stack :: "'a list list \<Rightarrow> error + 'a list list" where
  "np_stack x =
     (case x of
        [] \<Rightarrow> Inl ValueError
      | a # as \<Rightarrow> if list_all (\<lambda>b. length b = length a) as then Inr x else Inl ValueError)"

text \<open>The whole function. The module-level \<open>signals\<close> and the two fields of \<open>args\<close> it
  reads (\<open>lag\<close>, \<open>half_window\<close>) are parameters.\<close>

definition extract_signal_from_fold ::
  "'a list \<Rightarrow> label list \<Rightarrow> int list \<Rightarrow> int \<Rightarrow> int \<Rightarrow> error + ('a list list \<times> string list)" where
  "extract_signal_from_fold signals examples stitch_index lag half_window =
     (let lag_in_bin_dim = lag div 32 in
      case extract_loop signals stitch_index lag_in_bin_dim half_window examples ([], []) of
        Inl e \<Rightarrow> Inl e
      | Inr (x, w) \<Rightarrow>
          (case np_stack x of
             Inl e \<Rightarrow> Inl e
           | Inr xs \<Rightarrow> Inr (xs, w)))"

text \<open>The test that sends a label to the \<open>else\<close> branch of the loop body: the lookup
  returned a segment and neither edge leaves it.\<close>

definition accepted :: "int list \<Rightarrow> int \<Rightarrow> int \<Rightarrow> label \<Rightarrow> bool" where
  "accepted stitch_index lg hw lbl =
     (case segment_lookup stitch_index (onset lbl div 32) of
        Inl e \<Rightarrow> False
      | Inr (bin_start, bin_stop) \<Rightarrow>
          \<not> (left_edge lg hw lbl < bin_start \<or> right_edge lg hw lbl > bin_stop))"

section \<open>Weight averaging: class \<open>WeightAverager\<close>\<close>

text \<open>A parameter snapshot (\<open>model.get_weights()\<close>) is the vector of its entries; all
  snapshots of one model have the same shape. The entries are real numbers: the rounding of
  the floating-point operations is not modelled.\<close>

type_synonym snapshot = "real list"

record averager =
  epoch_count :: int
  weights :: "snapshot list"
  patience :: int
  best_weights :: "snapshot option"

text \<open>\<open>__init__(self, epoch_count, patience)\<close>.\<close>

definition init_averager :: "int \<Rightarrow> int \<Rightarrow> averager" where
  "init_averager epoch_count0 patience0 =
     \<lparr>epoch_count = min epoch_count0 (2 * patience0), weights = [], patience = patience0,
      best_weights = None\<rparr>"

text \<open>\<open>on_epoch_end\<close>: the second argument is \<open>self.model.get_weights()\<close> at that moment.
  The test compares the integer \<open>len(self.weights)\<close> with the result of a true division
  (\<open>/\<close>), which Python evaluates by numeric value; \<open>pop(0)\<close> removes the oldest entry.\<close>

definition on_epoch_end :: "averager \<Rightarrow> snapshot \<Rightarrow> averager" where
  "on_epoch_end a current =
     (let ws = (if length (weights a) \<noteq> 0
                   \<and> real (length (weights a))
                       = real_of_int (patience a) + real_of_int (epoch_count a) / 2
                then tl (weights a) else weights a)
      in a\<lparr>weights := ws @ [current]\<rparr>)"

text \<open>One update \<open>w = (w * p + np.asarray(nw)) / (p + 1)\<close>. Before the first update \<open>w\<close> is
  the scalar 0 (\<open>None\<close> here), which numpy broadcasts over the snapshot.\<close>

fun avg_step :: "snapshot option \<Rightarrow> nat \<Rightarrow> snapshot \<Rightarrow> snapshot" where
  "avg_step None p nw = map (\<lambda>b. (0 * real p + b) / (real p + 1)) nw"
| "avg_step (Some w) p nw = map2 (\<lambda>a b. (a * real p + b) / (real p + 1)) w nw"

text \<open>The loop \<open>for p, nw in enumerate(self.weights)\<close> with its \<open>break\<close>; the state is
  \<open>(w, p)\<close>.\<close>

fun avg_loop ::
  "int \<Rightarrow> (nat \<times> snapshot) list \<Rightarrow> snapshot option \<times> nat \<Rightarrow> snapshot option \<times> nat" where
  "avg_loop ec [] (w, p) = (w, p)"
| "avg_loop ec ((p', nw) # rest) (w, p) =
     (let w' = Some (avg_step w p' nw)
      in if int p' \<ge> ec then (w', p') else avg_loop ec rest (w', p'))"

text \<open>\<open>on_train_end\<close>: takes the model's current parameters and returns the averager, the
  model's parameters afterwards and the number printed by \<open>'Averaged {} weights.'\<close> (if
  anything is printed).\<close>

definition on_train_end :: "averager \<Rightarrow> snapshot \<Rightarrow> averager \<times> snapshot \<times> nat option" where
  "on_train_end a current =
     (if weights a \<noteq> [] then
        (case avg_loop (epoch_count a) (enumerate 0 (weights a)) (None, 0) of
           (Some w, p) \<Rightarrow> (a\<lparr>best_weights := Some current\<rparr>, w, Some (p + 1))
         | (None, p) \<Rightarrow> (a\<lparr>best_weights := Some current\<rparr>, current, Some (p + 1)))
      else (a, current, None))"

section \<open>Train mode: the callbacks handed to \<open>fit\<close>\<close>

datatype callback = EarlyStopping int | WeightAveragerCallback averager

text \<open>The lines that build \<open>callbacks\<close> and call \<open>model2.fit\<close>. The result is the list
  \<open>callbacks\<close> as built and the value of the keyword argument \<open>callbacks=[stopper]\<close> of
  \<open>fit\<close>; the name \<open>stopper\<close> is bound only when \<open>args.patience > 0\<close>.\<close>

definition train_mode_callbacks :: "int \<Rightarrow> int \<Rightarrow> callback list \<times> (error + callback list)" where
  "train_mode_callbacks args_patience args_n_weight_avg =
     (let callbacks0 = [];
          stopper = (if args_patience > 0 then Some (EarlyStopping args_patience) else None);
          callbacks1 = (case stopper of Some s \<Rightarrow> callbacks0 @ [s] | None \<Rightarrow> callbacks0);
          callbacks2 = (if args_n_weight_avg > 0
                        then callbacks1
                               @ [WeightAveragerCallback (init_averager args_n_weight_avg args_patience)]
                        else callbacks1)
      in (callbacks2, (case stopper of Some s \<Rightarrow> Inr [s] | None \<Rightarrow> Inl NameError)))"

section \<open>Double-precision numbers\<close>

text \<open>A value of numpy's \<open>float64\<close> (and of Python's \<open>float\<close>): a finite number, an infinity
  or NaN. A finite value is the rational number it stands for; the two zeros are one value
  (Python compares them equal).\<close>

datatype float64 = Finite rat | PosInf | NegInf | NaN

text \<open>For a positive rational \<open>a\<close>, the integer \<open>d\<close> with \<open>2 ^ d \<le> a < 2 ^ (d + 1)\<close>, from the
  numbers of binary digits (\<open>bitlen\<close>) of its numerator and denominator.\<close>

definition floor_log2 :: "rat \<Rightarrow> int" where
  "floor_log2 a =
     (case quotient_of a of
        (p, q) \<Rightarrow>
          let d = bitlen p - bitlen q
          in if (if 0 \<le> d then q * 2 ^ nat d \<le> p else q \<le> p * 2 ^ nat (- d)) then d else d - 1)"

text \<open>For a positive rational \<open>a\<close>, the integer \<open>m\<close> for which \<open>m * 2 ^ t\<close> is nearest to \<open>a\<close>,
  a tie going to the even \<open>m\<close>.\<close>

definition round_at :: "rat \<Rightarrow> int \<Rightarrow> int" where
  "round_at a t =
     (case quotient_of a of
        (p, q) \<Rightarrow>
          let num = (if 0 \<le> t then p else p * 2 ^ nat (- t));
              den = (if 0 \<le> t then q * 2 ^ nat t else q);
              qt = num div den;
              rm = num mod den
          in if 2 * rm < den then qt
             else if den < 2 * rm then qt + 1
             else if even qt then qt else qt + 1)"

text \<open>The rational number \<open>m * 2 ^ t\<close>.\<close>

definition scale2 :: "int \<Rightarrow> int \<Rightarrow> rat" where
  "scale2 m t = (if 0 \<le> t then of_int (m * 2 ^ nat t) else Fract m (2 ^ nat (- t)))"

text \<open>Rounding of an exact result to \<open>float64\<close> (IEEE 754 binary64, round to nearest, ties to
  even): 53 significant binary digits, no digit below \<open>2 ^ - 1074\<close>, and an infinity when the
  rounded magnitude reaches \<open>2 ^ 1024\<close>.\<close>

definition round64 :: "rat \<Rightarrow> float64" where
  "round64 r =
     (if r = 0 then Finite 0
      else let a = \<bar>r\<bar>;
               t = max (- 1074) (floor_log2 a - 52);
               m = round_at a t
           in if 0 \<le> t \<and> 2 ^ 1024 \<le> m * 2 ^ nat t then (if 0 < r then PosInf else NegInf)
              else Finite (if 0 < r then scale2 m t else - scale2 m t))"

text \<open>\<open>x + y\<close> on \<open>float64\<close>.\<close>

fun fadd :: "float64 \<Rightarrow> float64 \<Rightarrow> float64" where
  "fadd NaN y = NaN"
| "fadd x NaN = NaN"
| "fadd PosInf NegInf = NaN"
| "fadd NegInf PosInf = NaN"
| "fadd PosInf y = PosInf"
| "fadd NegInf y = NegInf"
| "fadd x PosInf = PosInf"
| "fadd x NegInf = NegInf"
| "fadd (Finite a) (Finite b) = round64 (a + b)"

text \<open>\<open>x / n\<close> for a \<open>float64\<close> \<open>x\<close> and a count \<open>n\<close> (numpy's \<open>true_divide\<close>; a division by zero
  gives an infinity or NaN and a warning, not an exception).\<close>

fun fdiv :: "float64 \<Rightarrow> nat \<Rightarrow> float64" where
  "fdiv NaN n = NaN"
| "fdiv PosInf n = PosInf"
| "fdiv NegInf n = NegInf"
| "fdiv (Finite a) n =
     (if n = 0 then (if 0 < a then PosInf else if a < 0 then NegInf else NaN)
      else round64 (a / of_nat n))"

text \<open>numpy's sum of a contiguous one-dimensional \<open>float64\<close> array (pairwise summation):
  fewer than 8 items are added in order; up to 128 items are added into 8 running sums,
  block by block, the 8 sums are combined and the items after the last full block are
  added in order; a longer array is split in two near its middle, at a multiple of 8.\<close>

fun add_blocks :: "float64 list \<Rightarrow> float64 list \<Rightarrow> float64 list \<times> float64 list" where
  "add_blocks r a =
     (if 8 \<le> length a then add_blocks (map2 fadd r (take 8 a)) (drop 8 a) else (r, a))"

declare add_blocks.simps [simp del]

function pairwise_sum :: "float64 list \<Rightarrow> float64" where
  "pairwise_sum a =
     (if length a < 8 then foldl fadd (Finite 0) a
      else if length a \<le> 128 then
        (case add_blocks (take 8 a) (drop 8 a) of
           (r, rest) \<Rightarrow>
             foldl fadd
               (fadd (fadd (fadd (r ! 0) (r ! 1)) (fadd (r ! 2) (r ! 3)))
                     (fadd (fadd (r ! 4) (r ! 5)) (fadd (r ! 6) (r ! 7))))
               rest)
      else fadd (pairwise_sum (take (length a div 2 - length a div 2 mod 8) a))
                (pairwise_sum (drop (length a div 2 - length a div 2 mod 8) a)))"
  by pat_completeness auto

termination pairwise_sum
  by (relation "measure length") auto

declare pairwise_sum.simps [simp del]

text \<open>\<open>np.add.reduce\<close>: the sum is added to the initial value 0.\<close>

definition np_sum :: "float64 list \<Rightarrow> float64" where
  "np_sum a = fadd (Finite 0) (pairwise_sum a)"

text \<open>\<open>np.mean\<close> of a one-dimensional array of numbers: the sum, divided by the number of
  items.\<close>

definition np_mean_floats :: "float64 list \<Rightarrow> float64" where
  "np_mean_floats a = fdiv (np_sum a) (length a)"

section \<open>Predictions of one model or of an ensemble\<close>

text \<open>The array a model returns for the test windows: one-dimensional, or two-dimensional
  with its number of columns and its rows (each of that many entries).\<close>

datatype ndarray = Array1 "float64 list" | Array2 nat "float64 list list"

text \<open>One slot of \<open>predictions\<close>: \<open>n_test\<close> rows of \<open>n_classes\<close> entries.\<close>

type_synonym tensor = "float64 list list"

text \<open>\<open>predictions[j] = model.predict(x_test)\<close>: numpy broadcasts the right-hand side to the
  shape \<open>(n_test, n_classes)\<close> of the slot; an axis of the right-hand side fits when it has
  the length of the slot's axis or length 1. Any other shape raises ValueError.\<close>

definition broadcast_axis :: "nat \<Rightarrow> 'a list \<Rightarrow> 'a list" where
  "broadcast_axis n xs = (if length xs = n then xs else replicate n (hd xs))"

definition store_prediction :: "nat \<Rightarrow> nat \<Rightarrow> ndarray \<Rightarrow> error + tensor" where
  "store_prediction n_test n_classes p =
     (case p of
        Array1 v \<Rightarrow>
          if length v = n_classes \<or> length v = 1
          then Inr (replicate n_test (broadcast_axis n_classes v))
          else Inl ValueError
      | Array2 c rs \<Rightarrow>
          if list_all (\<lambda>r. length r = c) rs
             \<and> (length rs = n_test \<or> length rs = 1) \<and> (c = n_classes \<or> c = 1)
          then Inr (broadcast_axis n_test (map (broadcast_axis n_classes) rs))
          else Inl ValueError)"

text \<open>The loop \<open>for j, model in enumerate(models)\<close> filling the slots of \<open>predictions\<close>.\<close>

fun store_predictions ::
  "('m \<Rightarrow> ndarray) \<Rightarrow> nat \<Rightarrow> nat \<Rightarrow> 'm list \<Rightarrow> error + tensor list" where
  "store_predictions predict n_test n_classes [] = Inr []"
| "store_predictions predict n_test n_classes (model # rest) =
     (case store_prediction n_test n_classes (predict model) of
        Inl e \<Rightarrow> Inl e
      | Inr p \<Rightarrow>
          (case store_predictions predict n_test n_classes rest of
             Inl e \<Rightarrow> Inl e
           | Inr ps \<Rightarrow> Inr (p # ps)))"

text \<open>\<open>np.average(predictions, axis=0)\<close> over the filled \<open>(len(models), n_test, n_classes)\<close>
  array: entry by entry the slots are added in order to the initial value 0, and the sum is
  divided by the number of slots.\<close>

definition np_average_axis0 :: "tensor list \<Rightarrow> nat \<Rightarrow> nat \<Rightarrow> tensor" where
  "np_average_axis0 ps n_test n_classes =
     map (\<lambda>i. map (\<lambda>k. fdiv (foldl fadd (Finite 0) (map (\<lambda>p. p ! i ! k) ps)) (length ps))
                 [0..<n_classes])
       [0..<n_test]"

text \<open>The evaluation lines up to the assignment of \<open>predictions\<close>. \<open>predict m\<close> stands for
  \<open>m.predict(x_test)\<close>. The variable \<open>model2\<close> is a parameter: it is bound to the fold's
  model in train mode and in reuse mode and is not bound in ensemble mode. With one model
  the code calls \<open>model2.evaluate\<close> and \<open>model2.predict\<close>; with no model \<open>predictions\<close>
  stays unbound and the next line that reads it raises NameError.\<close>

definition get_predictions ::
  "('m \<Rightarrow> ndarray) \<Rightarrow> 'm option \<Rightarrow> 'm list \<Rightarrow> nat \<Rightarrow> nat \<Rightarrow> error + ndarray" where
  "get_predictions predict model2 models n_test n_classes =
     (if length models = 1 then
        (case model2 of
           None \<Rightarrow> Inl NameError
         | Some m2 \<Rightarrow> Inr (predict m2))
      else if length models > 1 then
        (case store_predictions predict n_test n_classes models of
           Inl e \<Rightarrow> Inl e
         | Inr ps \<Rightarrow> Inr (Array2 n_classes (np_average_axis0 ps n_test n_classes)))
      else Inl NameError)"

section \<open>Aggregation of the fold results\<close>

text \<open>A metric value is a number (a Python float, or an integer count, which numpy converts
  to \<open>float64\<close>) or a data frame (its rows). A result record is a dictionary in insertion
  order.\<close>

datatype 'r metric =
  is_Scalar: Scalar (scalar_of: float64) | is_DataFrame: DataFrame (rows_of: "'r list")

type_synonym 'r results = "(string \<times> 'r metric) list"

text \<open>\<open>values = [tr[metric] for tr in fold_results]\<close>; a missing key raises KeyError.\<close>

fun values_of :: "string \<Rightarrow> 'r results list \<Rightarrow> error + 'r metric list" where
  "values_of metric_name [] = Inr []"
| "values_of metric_name (tr # rest) =
     (case map_of tr metric_name of
        None \<Rightarrow> Inl KeyError
      | Some v \<Rightarrow>
          (case values_of metric_name rest of
             Inl e \<Rightarrow> Inl e
           | Inr vs \<Rightarrow> Inr (v # vs)))"

text \<open>\<open>pd.concat\<close> appends the rows of the frames in order and raises TypeError when an
  item is not a frame.\<close>

fun pd_concat :: "'r metric list \<Rightarrow> error + 'r list" where
  "pd_concat [] = Inr []"
| "pd_concat (DataFrame rows # rest) =
     (case pd_concat rest of Inl e \<Rightarrow> Inl e | Inr others \<Rightarrow> Inr (rows @ others))"
| "pd_concat (Scalar x # rest) = Inl TypeError"

text \<open>\<open>np.mean(values)\<close>. On a list of numbers it is the \<open>float64\<close> mean above. On a list
  that holds a data frame, what numpy and pandas make of it depends on the frames (an
  exception or a frame): that result is the parameter \<open>mean_with_frames\<close>.\<close>

definition np_mean ::
  "('r metric list \<Rightarrow> error + 'r metric) \<Rightarrow> 'r metric list \<Rightarrow> error + 'r metric" where
  "np_mean mean_with_frames vs =
     (if list_all is_Scalar vs then Inr (Scalar (np_mean_floats (map scalar_of vs)))
      else mean_with_frames vs)"

text \<open>\<open>agg = pd.concat if isinstance(values[0], pd.DataFrame) else np.mean\<close>, applied to
  \<open>values\<close>.\<close>

definition agg ::
  "('r metric list \<Rightarrow> error + 'r metric) \<Rightarrow> 'r metric list \<Rightarrow> error + 'r metric" where
  "agg mean_with_frames vs =
     (case vs of
        [] \<Rightarrow> Inl IndexError
      | DataFrame rows # rest \<Rightarrow>
          (case pd_concat vs of Inl e \<Rightarrow> Inl e | Inr all_rows \<Rightarrow> Inr (DataFrame all_rows))
      | Scalar x # rest \<Rightarrow> np_mean mean_with_frames vs)"

text \<open>The loop \<open>for metric in fold_results[0]\<close>, updating the dictionary \<open>results\<close>.\<close>

fun aggregate_loop ::
  "('r metric list \<Rightarrow> error + 'r metric) \<Rightarrow> string list \<Rightarrow> 'r results list \<Rightarrow> 'r results
     \<Rightarrow> error + 'r results" where
  "aggregate_loop mean_with_frames [] fold_results results = Inr results"
| "aggregate_loop mean_with_frames (metric_name # rest) fold_results results =
     (case values_of metric_name fold_results of
        Inl e \<Rightarrow> Inl e
      | Inr vs \<Rightarrow>
          (case agg mean_with_frames vs of
             Inl e \<Rightarrow> Inl e
           | Inr v \<Rightarrow>
               aggregate_loop mean_with_frames rest fold_results
                 (AList.update (''avg_'' @ metric_name) v results)))"

definition aggregate_results ::
  "('r metric list \<Rightarrow> error + 'r metric) \<Rightarrow> 'r results list \<Rightarrow> error + 'r results" where
  "aggregate_results mean_with_frames fold_results =
     (case fold_results of
        [] \<Rightarrow> Inl IndexError
      | r0 # others \<Rightarrow> aggregate_loop mean_with_frames (map fst r0) fold_results [])"

section \<open>The vocabulary\<close>

text \<open>\<open>word2index = {w: j for j, w in enumerate(sorted(set(w_train.tolist())))}\<close>. A
  dictionary is its list of items in insertion order; \<open>set\<close> keeps one copy of each word
  and \<open>sorted\<close> orders the words as Python orders strings (lexicographically by
  character code).\<close>

definition word2index :: "string list \<Rightarrow> (string \<times> nat) list" where
  "word2index w_train =
     fold (\<lambda>(j, w) d. AList.update w j d) (enumerate 0 (sort (remdups w_train))) []"

text \<open>\<open>index2word = {j: word for word, j in word2index.items()}\<close>.\<close>

definition index2word :: "string list \<Rightarrow> (nat \<times> string) list" where
  "index2word w_train = fold (\<lambda>(word, j) d. AList.update j word d) (word2index w_train) []"

text \<open>\<open>word2index[w]\<close>.\<close>

definition lookup_word :: "string list \<Rightarrow> string \<Rightarrow> error + nat" where
  "lookup_word w_train w =
     (case map_of (word2index w_train) w of None \<Rightarrow> Inl KeyError | Some j \<Rightarrow> Inr j)"

section \<open>Ensemble mode: loading the persisted models\<close>

text \<open>One path returned by \<open>glob.glob\<close>: its name, whether \<open>os.path.isfile\<close> holds, and what
  \<open>tf.keras.models.load_model\<close> does on it: it returns a model or raises an exception
  (its message).\<close>

record 'm artifact =
  path :: string
  is_file :: bool
  load_model :: "string + 'm"

text \<open>The loop over the paths; the state is the list \<open>models\<close> and the lines printed.\<close>

fun load_models :: "'m artifact list \<Rightarrow> 'm list \<times> string list \<Rightarrow> 'm list \<times> string list" where
  "load_models [] (models, out) = (models, out)"
| "load_models (fn # rest) (models, out) =
     (if is_file fn then
        (case load_model fn of
           Inr m \<Rightarrow> load_models rest (models @ [m], out @ [''Loaded '' @ path fn])
         | Inl e \<Rightarrow> load_models rest (models, out @ [''Problem loading model: '' @ e]))
      else load_models rest (models, out))"

text \<open>The ensemble branch: the loop, then \<open>assert len(models) > 0\<close> and
  \<open>results['n_models'] = len(models)\<close>.\<close>

definition ensemble_branch :: "'m artifact list \<Rightarrow> error + ('m list \<times> string list \<times> nat)" where
  "ensemble_branch files =
     (case load_models files ([], []) of
        (models, out) \<Rightarrow>
          if length models > 0 then Inr (models, out, length models) else Inl AssertionError)"

text \<open>One fold in ensemble mode, from the loading of the models to the assignment of
  \<open>predictions\<close>: the ensemble branch, then the evaluation lines. No line of this mode binds
  \<open>model2\<close>.\<close>

definition ensemble_mode_predictions ::
  "('m \<Rightarrow> ndarray) \<Rightarrow> 'm artifact list \<Rightarrow> nat \<Rightarrow> nat \<Rightarrow> error + ndarray" where
  "ensemble_mode_predictions predict files n_test n_classes =
     (case ensemble_branch files of
        Inl e \<Rightarrow> Inl e
      | Inr (models, out, n_models) \<Rightarrow> get_predictions predict None models n_test n_classes)"

section \<open>Properties of the window extraction\<close>

subsection \<open>Segment lookup\<close>

lemma sorted_le_last: "sorted xs \<Longrightarrow> x \<in> set xs \<Longrightarrow> x \<le> last xs"
  for x :: "'b :: linorder"
  by (induction xs) (auto split: if_splits)

lemma bin_rank_of_Inr:
  assumes "bin_rank_of S b = Inr r"
  shows "r < length S \<and> S ! r < b \<and> (\<forall>j. r < j \<and> j < length S \<longrightarrow> \<not> S ! j < b)"
proof -
  let ?ps = "filter (\<lambda>i. S ! i < b) [0..<length S]"
  from assms have ne: "?ps \<noteq> []" and r: "r = last ?ps"
    by (auto simp: bin_rank_of_def split: list.splits)
  have "last ?ps \<in> set ?ps" using ne by (rule last_in_set)
  then have a: "r < length S \<and> S ! r < b" using r by simp
  have s: "sorted ?ps" by (simp add: sorted_wrt_filter)
  have "\<not> S ! j < b" if "r < j" "j < length S" for j
  proof
    assume "S ! j < b"
    then have "j \<in> set ?ps" using that by simp
    then have "j \<le> last ?ps" using s by (rule sorted_le_last[rotated])
    then show False using r that by simp
  qed
  then show ?thesis using a by blast
qed

lemma bin_rank_of_Inl:
  "(bin_rank_of S b = Inl e) \<longleftrightarrow> (e = IndexError \<and> (\<forall>j < length S. \<not> S ! j < b))"
proof -
  have "filter (\<lambda>i. S ! i < b) [0..<length S] = [] \<longleftrightarrow> (\<forall>j < length S. \<not> S ! j < b)"
    by (auto simp: filter_empty_conv)
  then show ?thesis
    by (cases "filter (\<lambda>i. S ! i < b) [0..<length S]") (auto simp: bin_rank_of_def)
qed

lemma bin_rank_of_cases: "(\<exists>r. bin_rank_of S b = Inr r) \<or> bin_rank_of S b = Inl IndexError"
  by (auto simp: bin_rank_of_def split: list.splits)

lemma segment_lookup_Inl: "segment_lookup S b = Inl e \<Longrightarrow> e = IndexError"
  by (auto simp: segment_lookup_def py_get_def bin_rank_of_def split: sum.splits list.splits if_splits)

lemma segment_lookup_Inr:
  assumes "segment_lookup S b = Inr (a, c)"
  shows "\<exists>i. Suc i < length S \<and> a = S ! i \<and> c = S ! Suc i \<and> S ! i < b \<and> \<not> S ! Suc i < b
           \<and> (\<forall>j. i < j \<and> j < length S \<longrightarrow> \<not> S ! j < b)"
proof -
  from assms obtain r where r: "bin_rank_of S b = Inr r" and "Suc r < length S"
    and "a = S ! r" and "c = S ! Suc r"
    by (auto simp: segment_lookup_def py_get_def split: sum.splits if_splits)
  moreover from bin_rank_of_Inr[OF r] have "S ! r < b" "\<forall>j. r < j \<and> j < length S \<longrightarrow> \<not> S ! j < b"
    by auto
  ultimately show ?thesis by (intro exI[of _ r]) auto
qed

lemma segment_lookup_sorted_intro:
  assumes "sorted S" and "Suc i < length S" and "S ! i < b" and "b \<le> S ! Suc i"
  shows "segment_lookup S b = Inr (S ! i, S ! Suc i)"
proof -
  from assms have "i < length S \<and> S ! i < b" by simp
  then have "\<not> (\<forall>j < length S. \<not> S ! j < b)" by blast
  then obtain r where r: "bin_rank_of S b = Inr r"
    using bin_rank_of_cases[of S b] bin_rank_of_Inl[of S b IndexError] by auto
  from bin_rank_of_Inr[OF r] have rl: "r < length S" and rb: "S ! r < b"
    and rmax: "\<forall>j. r < j \<and> j < length S \<longrightarrow> \<not> S ! j < b" by auto
  have "\<not> r < i" using rmax assms by auto
  moreover have "\<not> i < r"
  proof
    assume "i < r"
    then have "S ! Suc i \<le> S ! r" using \<open>sorted S\<close> rl by (simp add: sorted_nth_mono)
    then show False using rb assms by simp
  qed
  ultimately have "r = i" by simp
  then show ?thesis using r assms by (simp add: segment_lookup_def py_get_def)
qed

lemma segment_lookup_sorted:
  assumes "sorted S"
  shows "segment_lookup S b = Inr (a, c) \<longleftrightarrow>
         (\<exists>i. Suc i < length S \<and> a = S ! i \<and> c = S ! Suc i \<and> S ! i < b \<and> b \<le> S ! Suc i)"
proof
  assume "segment_lookup S b = Inr (a, c)"
  from segment_lookup_Inr[OF this] show "\<exists>i. Suc i < length S \<and> a = S ! i \<and> c = S ! Suc i \<and> S ! i < b \<and> b \<le> S ! Suc i"
    by (auto simp: not_less)
next
  assume "\<exists>i. Suc i < length S \<and> a = S ! i \<and> c = S ! Suc i \<and> S ! i < b \<and> b \<le> S ! Suc i"
  then show "segment_lookup S b = Inr (a, c)"
    using segment_lookup_sorted_intro[OF assms] by auto
qed

lemma segment_lookup_total:
  fixes S :: "int list"
  assumes "S \<noteq> []" and "S ! 0 < b" and "b \<le> last S"
  shows "\<exists>i. Suc i < length S \<and> S ! i < b \<and> b \<le> S ! Suc i"
proof -
  from assms have "0 < length S \<and> S ! 0 < b" by simp
  then have "\<not> (\<forall>j < length S. \<not> S ! j < b)" by blast
  then obtain r where r: "bin_rank_of S b = Inr r"
    using bin_rank_of_cases[of S b] bin_rank_of_Inl[of S b IndexError] by auto
  from bin_rank_of_Inr[OF r] have rl: "r < length S" and rb: "S ! r < b"
    and rmax: "\<forall>j. r < j \<and> j < length S \<longrightarrow> \<not> S ! j < b" by auto
  have "r \<noteq> length S - 1" using rb assms by (auto simp: last_conv_nth)
  then have "Suc r < length S" using rl by simp
  moreover have "b \<le> S ! Suc r" using rmax \<open>Suc r < length S\<close> by (auto simp: not_less)
  ultimately show ?thesis using rb by blast
qed

lemma py_slice_inside:
  assumes "0 \<le> l" and "l \<le> r" and "r \<le> int (length xs)"
  shows "py_slice xs l r = take (nat (r - l)) (drop (nat l) xs)"
    and "length (py_slice xs l r) = nat (r - l)"
proof -
  have a: "slice_bound (length xs) l = nat l" using assms by (simp add: slice_bound_def)
  have b: "slice_bound (length xs) r = nat r" using assms by (simp add: slice_bound_def)
  have c: "nat r - nat l = nat (r - l)" using assms by simp
  show "py_slice xs l r = take (nat (r - l)) (drop (nat l) xs)"
    by (simp add: py_slice_def Let_def a b c)
  then show "length (py_slice xs l r) = nat (r - l)" using assms by simp
qed

lemma extract_one_accepted:
  "accepted S lg hw e \<Longrightarrow>
   extract_one signals S lg hw e =
     Inr (Some (py_slice signals (left_edge lg hw e) (right_edge lg hw e), word e))"
  by (auto simp: accepted_def extract_one_def split: sum.splits)

lemma extract_one_rejected:
  "\<not> accepted S lg hw e \<Longrightarrow> segment_lookup S (onset e div 32) = Inr p \<Longrightarrow>
   extract_one signals S lg hw e = Inr None"
  by (auto simp: accepted_def extract_one_def split: sum.splits)

lemma extract_one_error:
  "segment_lookup S (onset e div 32) = Inl err \<Longrightarrow> extract_one signals S lg hw e = Inl err"
  by (simp add: extract_one_def)

lemma extract_loop_filter:
  assumes "\<forall>e \<in> set es. \<exists>p. segment_lookup S (onset e div 32) = Inr p"
  shows "extract_loop signals S lg hw es (x, w) =
         Inr (x @ map (\<lambda>e. py_slice signals (left_edge lg hw e) (right_edge lg hw e))
                    (filter (accepted S lg hw) es),
              w @ map word (filter (accepted S lg hw) es))"
  using assms
proof (induction es arbitrary: x w)
  case Nil
  then show ?case by simp
next
  case (Cons e es)
  then obtain p where p: "segment_lookup S (onset e div 32) = Inr p" by auto
  show ?case
  proof (cases "accepted S lg hw e")
    case True
    then show ?thesis using Cons by (simp add: extract_one_accepted)
  next
    case False
    then show ?thesis using Cons p by (simp add: extract_one_rejected)
  qed
qed

lemma extract_loop_error:
  assumes "e \<in> set es" and "segment_lookup S (onset e div 32) = Inl err"
  shows "extract_loop signals S lg hw es (x, w) = Inl IndexError"
  using assms
proof (induction es arbitrary: x w)
  case Nil
  then show ?case by simp
next
  case (Cons a es)
  show ?case
  proof (cases "segment_lookup S (onset a div 32)")
    case (Inl err')
    then show ?thesis using segment_lookup_Inl[OF Inl] by (simp add: extract_one_error)
  next
    case (Inr p)
    then have "a \<noteq> e" using Cons.prems by auto
    then have "e \<in> set es" using Cons.prems by simp
    from Cons.IH[OF this Cons.prems(2)] show ?thesis
      using Inr by (cases "accepted S lg hw a") (simp_all add: extract_one_accepted extract_one_rejected)
  qed
qed

text \<open>An event without a segment makes the whole call raise IndexError, whatever the other
  events are.\<close>

lemma extract_raises_without_segment:
  assumes "e \<in> set events" and "segment_lookup S (onset e div 32) = Inl err"
  shows "extract_signal_from_fold signals events S lag half_window = Inl IndexError"
  by (simp add: extract_signal_from_fold_def extract_loop_error[OF assms])

subsection \<open>The loop as a filter\<close>

lemma np_stack_uniform:
  assumes "x \<noteq> []" and "\<forall>a \<in> set x. length a = n"
  shows "np_stack x = Inr x"
  using assms by (cases x) (auto simp: np_stack_def list_all_iff)

lemma sorted_nth_bounds:
  fixes S :: "int list"
  assumes "sorted S" and "Suc i < length S"
  shows "S ! 0 \<le> S ! i" and "S ! Suc i \<le> last S"
proof -
  show "S ! 0 \<le> S ! i" using assms by (simp add: sorted_nth_mono)
  have "S ! Suc i \<le> S ! (length S - 1)" using assms by (intro sorted_nth_mono) auto
  then show "S ! Suc i \<le> last S" using assms by (cases S) (auto simp: last_conv_nth)
qed

lemma extract_result_by_lookup:
  fixes S :: "int list" and signals :: "'a list"
  defines "inside \<equiv> \<lambda>lg hw e. \<exists>i. Suc i < length S
              \<and> S ! i < onset e div 32 \<and> onset e div 32 \<le> S ! Suc i
              \<and> S ! i \<le> left_edge lg hw e \<and> right_edge lg hw e \<le> S ! Suc i"
  assumes srt: "sorted S" and ne: "S \<noteq> []"
    and lo: "0 \<le> S ! 0" and hi: "last S \<le> int (length signals)"
    and hw: "0 \<le> half_window"
    and located: "\<forall>e \<in> set events. S ! 0 < onset e div 32 \<and> onset e div 32 \<le> last S"
    and some: "\<exists>e \<in> set events. inside (lag div 32) half_window e"
  shows "extract_signal_from_fold signals events S lag half_window =
           Inr (map (\<lambda>e. take (nat (2 * half_window))
                           (drop (nat (left_edge (lag div 32) half_window e)) signals))
                  (filter (inside (lag div 32) half_window) events),
                map word (filter (inside (lag div 32) half_window) events))
       \<and> (\<forall>e \<in> set events. inside (lag div 32) half_window e \<longrightarrow>
            length (take (nat (2 * half_window))
                     (drop (nat (left_edge (lag div 32) half_window e)) signals))
              = nat (2 * half_window))"
proof -
  let ?lg = "lag div 32"
  let ?win = "\<lambda>e. take (nat (2 * half_window)) (drop (nat (left_edge ?lg half_window e)) signals)"
  have acc: "accepted S ?lg half_window e \<longleftrightarrow> inside ?lg half_window e" for e
  proof
    assume "accepted S ?lg half_window e"
    then obtain a c where l: "segment_lookup S (onset e div 32) = Inr (a, c)"
      and "a \<le> left_edge ?lg half_window e" and "right_edge ?lg half_window e \<le> c"
      by (auto simp: accepted_def not_less split: sum.splits)
    then show "inside ?lg half_window e"
      using segment_lookup_sorted[OF srt, of "onset e div 32" a c] unfolding inside_def by auto
  next
    assume "inside ?lg half_window e"
    then obtain i where i: "Suc i < length S" "S ! i < onset e div 32" "onset e div 32 \<le> S ! Suc i"
      "S ! i \<le> left_edge ?lg half_window e" "right_edge ?lg half_window e \<le> S ! Suc i"
      unfolding inside_def by blast
    from segment_lookup_sorted_intro[OF srt i(1,2,3)] i(4,5)
    show "accepted S ?lg half_window e" by (simp add: accepted_def)
  qed
  then have accf: "accepted S ?lg half_window = inside ?lg half_window" by blast
  have win: "py_slice signals (left_edge ?lg half_window e) (right_edge ?lg half_window e) = ?win e
             \<and> length (?win e) = nat (2 * half_window)"
    if "inside ?lg half_window e" for e
  proof -
    from that obtain i where i: "Suc i < length S"
      "S ! i \<le> left_edge ?lg half_window e" "right_edge ?lg half_window e \<le> S ! Suc i"
      unfolding inside_def by blast
    from sorted_nth_bounds[OF srt i(1)] lo hi i
    have l0: "0 \<le> left_edge ?lg half_window e"
      and rn: "right_edge ?lg half_window e \<le> int (length signals)" by auto
    have d: "right_edge ?lg half_window e - left_edge ?lg half_window e = 2 * half_window"
      by (simp add: left_edge_def right_edge_def)
    then have lr: "left_edge ?lg half_window e \<le> right_edge ?lg half_window e" using hw by simp
    from py_slice_inside[OF l0 lr rn] d show ?thesis by simp
  qed
  have lookups: "\<forall>e \<in> set events. \<exists>p. segment_lookup S (onset e div 32) = Inr p"
  proof
    fix e assume "e \<in> set events"
    with located have "S ! 0 < onset e div 32" "onset e div 32 \<le> last S" by auto
    from segment_lookup_total[OF ne this] obtain i where
      "Suc i < length S" "S ! i < onset e div 32" "onset e div 32 \<le> S ! Suc i" by blast
    from segment_lookup_sorted_intro[OF srt this]
    show "\<exists>p. segment_lookup S (onset e div 32) = Inr p" by blast
  qed
  let ?acc = "filter (inside ?lg half_window) events"
  have loop: "extract_loop signals S ?lg half_window events ([], []) =
        Inr (map ?win ?acc, map word ?acc)"
    using extract_loop_filter[OF lookups, of signals ?lg half_window "[]" "[]"] win
    by (simp add: accf cong: map_cong)
  have "?acc \<noteq> []" using some by (auto simp: filter_empty_conv)
  then have "map ?win ?acc \<noteq> []" by simp
  moreover have "\<forall>a \<in> set (map ?win ?acc). length a = nat (2 * half_window)"
    using win by auto
  ultimately have "np_stack (map ?win ?acc) = Inr (map ?win ?acc)"
    by (rule np_stack_uniform)
  with loop have "extract_signal_from_fold signals events S lag half_window =
           Inr (map ?win ?acc, map word ?acc)"
    by (simp add: extract_signal_from_fold_def)
  moreover have "\<forall>e \<in> set events. inside ?lg half_window e \<longrightarrow> length (?win e) = nat (2 * half_window)"
    using win by blast
  ultimately show ?thesis by blast
qed

lemma ex_below_two: "(\<exists>i<Suc (Suc 0). P i) \<longleftrightarrow> P 0 \<or> P (Suc 0)"
  by (auto simp: less_Suc_eq)

lemma strictly_inside_unique:
  fixes S :: "int list"
  assumes srt: "sorted S"
    and i: "Suc i < length S" "S ! i < b" "b < S ! Suc i"
    and j: "Suc j < length S" "S ! j < b" "b \<le> S ! Suc j"
  shows "j = i"
proof -
  have "\<not> i < j"
  proof
    assume "i < j"
    then have "S ! Suc i \<le> S ! j" using srt j(1) by (intro sorted_nth_mono) auto
    then show False using i j by simp
  qed
  moreover have "\<not> j < i"
  proof
    assume "j < i"
    then have "S ! Suc j \<le> S ! i" using srt i(1) by (intro sorted_nth_mono) auto
    then show False using i j by simp
  qed
  ultimately show ?thesis by simp
qed

subsection \<open>Which events yield a window\<close>

text \<open>Claim C1, as amended. Let the stitch index \<open>S\<close> be sorted, start at a non-negative
  offset and end at most at the number of signal rows, let \<open>half_window\<close> be non-negative,
  let the bin index \<open>onset div 32\<close> of every event lie strictly between two consecutive
  boundaries, and let at least one event pass the test below. Then the extraction returns,
  in input order, exactly the events whose \<open>left_edge\<close> is at least the start and whose
  \<open>right_edge\<close> is at most the end of the segment around their bin index: each with the
  \<open>2 * half_window\<close> signal rows from \<open>left_edge\<close> on, paired with the event's word. Every
  other event is skipped and contributes nothing.\<close>

theorem extract_emits_contained_windows:
  fixes S :: "int list" and signals :: "'a list"
  defines "within_seg \<equiv> \<lambda>lg hw e. \<exists>i. Suc i < length S
              \<and> S ! i < onset e div 32 \<and> onset e div 32 < S ! Suc i
              \<and> S ! i \<le> left_edge lg hw e \<and> right_edge lg hw e \<le> S ! Suc i"
  assumes srt: "sorted S"
    and lo: "0 \<le> S ! 0" and hi: "last S \<le> int (length signals)"
    and hw: "0 \<le> half_window"
    and located: "\<forall>e \<in> set events. \<exists>i. Suc i < length S
                    \<and> S ! i < onset e div 32 \<and> onset e div 32 < S ! Suc i"
    and some: "\<exists>e \<in> set events. within_seg (lag div 32) half_window e"
  shows "extract_signal_from_fold signals events S lag half_window =
           Inr (map (\<lambda>e. take (nat (2 * half_window))
                           (drop (nat (left_edge (lag div 32) half_window e)) signals))
                  (filter (within_seg (lag div 32) half_window) events),
                map word (filter (within_seg (lag div 32) half_window) events))
       \<and> (\<forall>e \<in> set events. within_seg (lag div 32) half_window e \<longrightarrow>
            length (take (nat (2 * half_window))
                     (drop (nat (left_edge (lag div 32) half_window e)) signals))
              = nat (2 * half_window))"
proof -
  let ?lg = "lag div 32"
  let ?inside = "\<lambda>e. \<exists>i. Suc i < length S
              \<and> S ! i < onset e div 32 \<and> onset e div 32 \<le> S ! Suc i
              \<and> S ! i \<le> left_edge ?lg half_window e \<and> right_edge ?lg half_window e \<le> S ! Suc i"
  have eq: "?inside e \<longleftrightarrow> within_seg ?lg half_window e" if "e \<in> set events" for e
  proof
    assume "?inside e"
    then obtain j where j: "Suc j < length S" "S ! j < onset e div 32" "onset e div 32 \<le> S ! Suc j"
      "S ! j \<le> left_edge ?lg half_window e" "right_edge ?lg half_window e \<le> S ! Suc j" by blast
    from located that obtain i where i: "Suc i < length S" "S ! i < onset e div 32"
      "onset e div 32 < S ! Suc i" by blast
    from strictly_inside_unique[OF srt i j(1,2,3)] have "j = i" .
    with i j show "within_seg ?lg half_window e" unfolding within_seg_def by blast
  next
    assume "within_seg ?lg half_window e"
    then show "?inside e" unfolding within_seg_def by force
  qed
  then have feq: "filter ?inside events = filter (within_seg ?lg half_window) events"
    by (intro filter_cong) auto
  from located some have ne: "S \<noteq> []" by auto
  have loc: "\<forall>e \<in> set events. S ! 0 < onset e div 32 \<and> onset e div 32 \<le> last S"
  proof
    fix e assume "e \<in> set events"
    with located obtain i where i: "Suc i < length S" "S ! i < onset e div 32"
      "onset e div 32 < S ! Suc i" by blast
    from sorted_nth_bounds[OF srt i(1)] i
    show "S ! 0 < onset e div 32 \<and> onset e div 32 \<le> last S" by simp
  qed
  have some': "\<exists>e \<in> set events. ?inside e" using some eq by blast
  from extract_result_by_lookup[OF srt ne lo hi hw loc some']
  show ?thesis using eq unfolding feq by blast
qed

theorem extract_emits_contained_windows_witness:
  "extract_signal_from_fold [1, 2, 3, 4, 5, 6, 7, 8 :: int]
     [\<lparr>onset = 32, word = ''a''\<rparr>, \<lparr>onset = 64, word = ''b''\<rparr>, \<lparr>onset = 192, word = ''c''\<rparr>]
     [0, 4, 8] 0 2
   = Inr ([[1, 2, 3, 4], [5, 6, 7, 8]], [''b'', ''c''])"
proof -
  let ?S = "[0, 4, 8 :: int]"
  let ?ev = "[\<lparr>onset = 32, word = ''a''\<rparr>, \<lparr>onset = 64, word = ''b''\<rparr>,
              \<lparr>onset = 192, word = ''c''\<rparr>]"
  have h1: "sorted ?S" and h3: "0 \<le> ?S ! 0"
    and h4: "last ?S \<le> int (length [1, 2, 3, 4, 5, 6, 7, 8 :: int])" and h5: "(0::int) \<le> 2"
    by simp_all
  have h6: "\<forall>e \<in> set ?ev. \<exists>i. Suc i < length ?S
              \<and> ?S ! i < onset e div 32 \<and> onset e div 32 < ?S ! Suc i"
    by (simp add: ex_below_two)
  have h7: "\<exists>e \<in> set ?ev. \<exists>i. Suc i < length ?S
              \<and> ?S ! i < onset e div 32 \<and> onset e div 32 < ?S ! Suc i
              \<and> ?S ! i \<le> left_edge (0 div 32) 2 e \<and> right_edge (0 div 32) 2 e \<le> ?S ! Suc i"
    by (simp add: ex_below_two left_edge_def right_edge_def)
  from extract_emits_contained_windows[OF h1 h3 h4 h5 h6 h7]
  show ?thesis
    by (simp add: ex_below_two left_edge_def right_edge_def)
qed

text \<open>Claim C1 as stated fails: the first event below passes the containment test and the
  second has a bin index (9) beyond the last boundary; no window is returned and the second
  event is not skipped, the call raises IndexError.\<close>

theorem extract_not_total_counterexample:
  "extract_signal_from_fold [1, 2, 3, 4, 5, 6, 7, 8 :: int]
     [\<lparr>onset = 64, word = ''b''\<rparr>, \<lparr>onset = 288, word = ''z''\<rparr>] [0, 4, 8] 0 2
   = Inl IndexError"
  by (simp add: extract_signal_from_fold_def extract_one_def segment_lookup_def
        bin_rank_of_def py_get_def left_edge_def right_edge_def py_slice_def slice_bound_def)

text \<open>When no event is accepted, \<open>np.stack\<close> receives an empty list: the event on the
  boundary (bin 500) is skipped and the call then raises ValueError.\<close>

lemma extract_all_rejected_raises:
  "extract_signal_from_fold (replicate 1000 (0::real))
     [\<lparr>onset = 16000, word = ''w''\<rparr>] [0, 500, 1000] 0 16 = Inl ValueError"
  by (simp add: extract_signal_from_fold_def extract_one_def segment_lookup_def
        bin_rank_of_def py_get_def left_edge_def right_edge_def np_stack_def)

text \<open>With a negative \<open>half_window\<close> the edges cross: the event passes the test and its
  window has no row.\<close>

lemma extract_negative_half_window:
  "extract_signal_from_fold [1, 2, 3, 4, 5, 6, 7, 8 :: int]
     [\<lparr>onset = 64, word = ''b''\<rparr>] [0, 4, 8] 0 (-1) = Inr ([[]], [''b''])"
  by (simp add: extract_signal_from_fold_def extract_one_def segment_lookup_def
        bin_rank_of_def py_get_def left_edge_def right_edge_def py_slice_def slice_bound_def
        np_stack_def)

subsection \<open>The segment of a bin index on a boundary\<close>

text \<open>Claim C2. The claim places a bin index equal to a boundary in the segment that starts
  there. The lookup compares strictly: bin 500 is looked up in the segment from 0 to 500,
  so a window over the rows 500 to 532 (lag 512, half window 16), which lies inside the
  segment from 500 to 1000, is rejected; and bin 0 has no segment at all.\<close>

theorem segment_lookup_on_boundary:
  "segment_lookup [0, 500, 1000] 500 = Inr (0, 500)
   \<and> extract_signal_from_fold (replicate 1000 (0::real))
        [\<lparr>onset = 16000, word = ''w''\<rparr>] [0, 500, 1000] 512 16 = Inl ValueError
   \<and> segment_lookup [0, 500, 1000] 0 = Inl IndexError"
  by (simp add: extract_signal_from_fold_def extract_one_def segment_lookup_def
        bin_rank_of_def py_get_def left_edge_def right_edge_def np_stack_def)

subsection \<open>Partiality at bin index 0\<close>

text \<open>Claim C10. With a stitch index of non-negative offsets, an event whose bin index
  \<open>onset div 32\<close> is 0 makes the whole call raise IndexError (no boundary lies strictly
  below the bin index), and a call that returns has only events of strictly positive
  bin index.\<close>

theorem extract_raises_at_bin_zero:
  fixes S :: "int list"
  assumes "\<forall>s \<in> set S. 0 \<le> s"
  shows "(\<forall>e \<in> set events. onset e div 32 = 0 \<longrightarrow>
            extract_signal_from_fold signals events S lag half_window = Inl IndexError)
       \<and> (\<forall>r. extract_signal_from_fold signals events S lag half_window = Inr r \<longrightarrow>
            (\<forall>e \<in> set events. 0 < onset e div 32))"
proof -
  have err: "extract_signal_from_fold signals events S lag half_window = Inl IndexError"
    if "e \<in> set events" and "onset e div 32 \<le> 0" for e
  proof -
    have "\<forall>j < length S. \<not> S ! j < onset e div 32"
      using assms that(2) by (auto simp: not_less intro: order_trans)
    then have "bin_rank_of S (onset e div 32) = Inl IndexError"
      by (simp add: bin_rank_of_Inl)
    then have "segment_lookup S (onset e div 32) = Inl IndexError"
      by (simp add: segment_lookup_def)
    then show ?thesis
      by (simp add: extract_signal_from_fold_def extract_loop_error[OF that(1)])
  qed
  show ?thesis
  proof (intro conjI ballI allI impI)
    fix e assume "e \<in> set events" "onset e div 32 = 0"
    then show "extract_signal_from_fold signals events S lag half_window = Inl IndexError"
      using err[of e] by simp
  next
    fix r e
    assume r: "extract_signal_from_fold signals events S lag half_window = Inr r"
      and e: "e \<in> set events"
    show "0 < onset e div 32"
    proof (rule ccontr)
      assume "\<not> 0 < onset e div 32"
      then have "onset e div 32 \<le> 0" by simp
      from err[OF e this] r show False by simp
    qed
  qed
qed

theorem extract_raises_at_bin_zero_witness:
  "extract_signal_from_fold [1, 2, 3, 4, 5, 6 :: int]
     [\<lparr>onset = 64, word = ''a''\<rparr>, \<lparr>onset = 31, word = ''b''\<rparr>] [0, 3, 6] 0 1 = Inl IndexError
   \<and> extract_signal_from_fold [1, 2, 3, 4, 5, 6 :: int]
     [\<lparr>onset = 64, word = ''a''\<rparr>] [0, 3, 6] 0 1 = Inr ([[2, 3]], [''a''])
   \<and> (0::int) < onset \<lparr>onset = 64, word = ''a''\<rparr> div 32"
proof -
  have h: "\<forall>s \<in> set [0, 3, 6 :: int]. 0 \<le> s" by simp
  have r: "extract_signal_from_fold [1, 2, 3, 4, 5, 6 :: int]
     [\<lparr>onset = 64, word = ''a''\<rparr>] [0, 3, 6] 0 1 = Inr ([[2, 3]], [''a''])"
    by (simp add: extract_signal_from_fold_def extract_one_def segment_lookup_def
        bin_rank_of_def py_get_def left_edge_def right_edge_def py_slice_def slice_bound_def
        np_stack_def)
  from extract_raises_at_bin_zero[OF h, of "[\<lparr>onset = 64, word = ''a''\<rparr>, \<lparr>onset = 31, word = ''b''\<rparr>]"
      "[1, 2, 3, 4, 5, 6 :: int]" 0 1]
    extract_raises_at_bin_zero[OF h, of "[\<lparr>onset = 64, word = ''a''\<rparr>]"
      "[1, 2, 3, 4, 5, 6 :: int]" 0 1] r
  show ?thesis by simp
qed

section \<open>Properties of the train-mode callbacks\<close>

text \<open>Whatever the arguments, \<open>fit\<close> is given the early stopper alone (or the unbound name
  raises NameError).\<close>

lemma fit_never_receives_averager:
  "snd (train_mode_callbacks args_patience args_n_weight_avg) =
     (if args_patience > 0 then Inr [EarlyStopping args_patience] else Inl NameError)"
  by (simp add: train_mode_callbacks_def Let_def)

text \<open>Claim C3. The claim has the weight averager observe the training run when
  \<open>n_weight_avg > 0\<close>. With \<open>patience = 150\<close> and \<open>n_weight_avg = 10\<close> the averager is built
  and appended to \<open>callbacks\<close>, but the list handed to \<open>fit\<close> is \<open>[stopper]\<close>: the averager
  is not in it, so the training loop never calls it.\<close>

theorem averager_not_passed_to_fit:
  "train_mode_callbacks 150 10 =
     ([EarlyStopping 150, WeightAveragerCallback (init_averager 10 150)],
      Inr [EarlyStopping 150])"
  by (simp add: train_mode_callbacks_def Let_def)

section \<open>Properties of the weight averager\<close>

text \<open>Claim C4. The claim has at most \<open>epoch_count\<close> snapshots averaged. With
  \<open>epoch_count = 2\<close> (from \<open>n_weight_avg = 2\<close>, \<open>patience = 2\<close>) and three retained snapshots
  the loop leaves only after the update at position 2: all three are averaged
  (\<open>(0 + 0 + 3) / 3 = 1\<close>, and 3 is the number printed), not the first two (mean 0).\<close>

theorem average_takes_one_snapshot_more:
  "on_train_end (foldl on_epoch_end (init_averager 2 2) [[0], [0], [3]]) [7] =
     (\<lparr>epoch_count = 2, weights = [[0], [0], [3]], patience = 2, best_weights = Some [7]\<rparr>,
      [1], Some 3)"
  by (simp add: on_train_end_def on_epoch_end_def init_averager_def enumerate_eq_zip Let_def upt_rec)

subsection \<open>The number of retained snapshots\<close>

lemma on_epoch_end_odd:
  assumes "odd (epoch_count a)"
  shows "weights (on_epoch_end a current) = weights a @ [current]"
proof -
  have "real (length (weights a)) \<noteq> real_of_int (patience a) + real_of_int (epoch_count a) / 2"
  proof
    assume "real (length (weights a)) = real_of_int (patience a) + real_of_int (epoch_count a) / 2"
    then have "2 * real (length (weights a)) = 2 * real_of_int (patience a) + real_of_int (epoch_count a)"
      by simp
    then have "real_of_int (2 * int (length (weights a))) = real_of_int (2 * patience a + epoch_count a)"
      by simp
    then have "2 * int (length (weights a)) = 2 * patience a + epoch_count a"
      by (simp only: of_int_eq_iff)
    then have "even (epoch_count a)" by presburger
    with assms show False by simp
  qed
  then show ?thesis by (simp add: on_epoch_end_def Let_def)
qed

lemma on_epoch_end_fields:
  "epoch_count (on_epoch_end a current) = epoch_count a"
  "patience (on_epoch_end a current) = patience a"
  by (simp_all add: on_epoch_end_def Let_def)

lemma foldl_on_epoch_end_fields:
  "epoch_count (foldl on_epoch_end a snaps) = epoch_count a"
  "patience (foldl on_epoch_end a snaps) = patience a"
  by (induction snaps arbitrary: a) (simp_all add: on_epoch_end_fields)

text \<open>With an odd \<open>epoch_count\<close> the bound \<open>patience + epoch_count / 2\<close> is not an integer,
  the length never equals it and nothing is ever evicted.\<close>

lemma odd_epoch_count_keeps_everything:
  assumes "odd (epoch_count a)"
  shows "weights (foldl on_epoch_end a snaps) = weights a @ snaps"
  using assms
proof (induction snaps arbitrary: a)
  case Nil
  then show ?case by simp
next
  case (Cons s snaps)
  have "odd (epoch_count (on_epoch_end a s))" using Cons.prems by (simp add: on_epoch_end_fields)
  from Cons.IH[OF this] show ?case using Cons.prems by (simp add: on_epoch_end_odd)
qed

lemma on_epoch_end_bounded:
  assumes cap: "2 * int c = 2 * patience a + epoch_count a" and pos: "0 < c"
    and inv: "length (weights a) \<le> c"
  shows "length (weights (on_epoch_end a current)) \<le> c"
proof -
  have eq: "real (length (weights a)) = real_of_int (patience a) + real_of_int (epoch_count a) / 2
            \<longleftrightarrow> length (weights a) = c"
  proof -
    have "real_of_int (patience a) + real_of_int (epoch_count a) / 2 = real c"
    proof -
      have "real_of_int (2 * int c) = real_of_int (2 * patience a + epoch_count a)"
        using cap by simp
      then show ?thesis by simp
    qed
    then show ?thesis by simp
  qed
  show ?thesis
  proof (cases "length (weights a) = c")
    case True
    then show ?thesis using pos eq by (simp add: on_epoch_end_def Let_def)
  next
    case False
    then show ?thesis using inv eq by (simp add: on_epoch_end_def Let_def)
  qed
qed

text \<open>With an even \<open>epoch_count\<close> and a positive bound \<open>c = patience + epoch_count / 2\<close> the
  list never grows beyond \<open>c\<close>.\<close>

lemma even_epoch_count_bounded:
  assumes cap: "2 * int c = 2 * patience a + epoch_count a" and pos: "0 < c"
    and inv: "length (weights a) \<le> c"
  shows "length (weights (foldl on_epoch_end a snaps)) \<le> c"
  using assms
proof (induction snaps arbitrary: a)
  case Nil
  then show ?case by simp
next
  case (Cons s snaps)
  have "2 * int c = 2 * patience (on_epoch_end a s) + epoch_count (on_epoch_end a s)"
    using Cons.prems by (simp add: on_epoch_end_fields)
  moreover have "length (weights (on_epoch_end a s)) \<le> c"
    using Cons.prems by (intro on_epoch_end_bounded)
  ultimately show ?case using Cons.IH[of "on_epoch_end a s"] Cons.prems by simp
qed

text \<open>Claim C5. The claim bounds the number of retained snapshots by
  \<open>patience + epoch_count / 2\<close> for all values. With \<open>patience = 1\<close> and \<open>epoch_count = 1\<close>
  the bound is \<open>3 / 2\<close> and after three epochs three snapshots are retained.\<close>

theorem odd_epoch_count_never_evicts:
  "length (weights (foldl on_epoch_end (init_averager 1 1) [[1], [2], [3]])) = 3
   \<and> real_of_int (patience (init_averager 1 1)) + real_of_int (epoch_count (init_averager 1 1)) / 2
       = 3 / 2"
  by (simp add: on_epoch_end_def init_averager_def Let_def)

subsection \<open>The snapshots that are averaged\<close>

lemma avg_step_first:
  "avg_step None 0 nw = nw"
  by (simp add: map_idI)

lemma avg_step_mean:
  assumes "0 < length pre" and "\<forall>w \<in> set pre. length w = n" and "length nw = n"
  shows "avg_step (Some (map (\<lambda>i. sum_list (map (\<lambda>w. w ! i) pre) / real (length pre)) [0..<n]))
           (length pre) nw
         = map (\<lambda>i. sum_list (map (\<lambda>w. w ! i) (pre @ [nw])) / real (length (pre @ [nw]))) [0..<n]"
proof (rule nth_equalityI)
  show "length (avg_step (Some (map (\<lambda>i. sum_list (map (\<lambda>w. w ! i) pre) / real (length pre)) [0..<n]))
           (length pre) nw)
        = length (map (\<lambda>i. sum_list (map (\<lambda>w. w ! i) (pre @ [nw])) / real (length (pre @ [nw]))) [0..<n])"
    using assms by simp
next
  fix i
  assume "i < length (avg_step (Some (map (\<lambda>i. sum_list (map (\<lambda>w. w ! i) pre) / real (length pre)) [0..<n]))
           (length pre) nw)"
  then have i: "i < n" using assms by simp
  have p: "real (length pre) \<noteq> 0" using assms(1) by simp
  show "avg_step (Some (map (\<lambda>i. sum_list (map (\<lambda>w. w ! i) pre) / real (length pre)) [0..<n]))
           (length pre) nw ! i
        = map (\<lambda>i. sum_list (map (\<lambda>w. w ! i) (pre @ [nw])) / real (length (pre @ [nw]))) [0..<n] ! i"
    using i assms(3) p by (simp add: field_simps)
qed

lemma avg_loop_mean:
  assumes "0 < length pre" and "int (length pre) \<le> ec"
    and "\<forall>w \<in> set pre. length w = n" and "\<forall>w \<in> set rest. length w = n"
  shows "avg_loop ec (enumerate (length pre) rest)
           (Some (map (\<lambda>i. sum_list (map (\<lambda>w. w ! i) pre) / real (length pre)) [0..<n]),
            length pre - 1)
         = (Some (map (\<lambda>i. sum_list (map (\<lambda>w. w ! i)
                                (pre @ take (nat (ec - int (length pre)) + 1) rest))
                        / real (length (pre @ take (nat (ec - int (length pre)) + 1) rest)))
                   [0..<n]),
            length (pre @ take (nat (ec - int (length pre)) + 1) rest) - 1)"
  using assms
proof (induction rest arbitrary: pre)
  case Nil
  then show ?case by simp
next
  case (Cons nw rest)
  define pre' where "pre' = pre @ [nw]"
  define mean where "mean = (\<lambda>ws :: snapshot list.
      map (\<lambda>i. sum_list (map (\<lambda>w. w ! i) ws) / real (length ws)) [0..<n])"
  have nw: "length nw = n" using Cons.prems by simp
  have step: "avg_step (Some (mean pre)) (length pre) nw = mean pre'"
    unfolding mean_def pre'_def by (rule avg_step_mean[OF Cons.prems(1,3) nw])
  have lp: "length pre' = Suc (length pre)" by (simp add: pre'_def)
  have app: "pre @ nw # xs = pre' @ xs" for xs by (simp add: pre'_def)
  show ?case
  proof (cases "int (length pre) \<ge> ec")
    case True
    with Cons.prems(2) have e: "ec = int (length pre)" by simp
    have "avg_loop ec (enumerate (length pre) (nw # rest)) (Some (mean pre), length pre - 1)
          = (Some (mean pre'), length pre)"
      using e step by simp
    moreover have "pre @ take (nat (ec - int (length pre)) + 1) (nw # rest) = pre'"
      using e by (simp add: pre'_def)
    ultimately show ?thesis unfolding mean_def using lp by simp
  next
    case False
    then have lt: "int (length pre') \<le> ec" by (simp add: lp)
    have l: "0 < length pre'" by (simp add: lp)
    have a: "\<forall>w \<in> set pre'. length w = n" using Cons.prems nw by (simp add: pre'_def)
    have b: "\<forall>w \<in> set rest. length w = n" using Cons.prems by simp
    have t: "nat (ec - int (length pre)) + 1 = Suc (nat (ec - int (length pre')) + 1)"
      using False by (simp add: lp)
    have tk: "pre @ take (nat (ec - int (length pre)) + 1) (nw # rest)
              = pre' @ take (nat (ec - int (length pre')) + 1) rest"
      unfolding t by (simp add: app)
    have "avg_loop ec (enumerate (length pre) (nw # rest)) (Some (mean pre), length pre - 1)
          = avg_loop ec (enumerate (length pre') rest) (Some (mean pre'), length pre' - 1)"
      using False step by (simp add: lp)
    also have "\<dots> = (Some (mean (pre' @ take (nat (ec - int (length pre')) + 1) rest)),
            length (pre' @ take (nat (ec - int (length pre')) + 1) rest) - 1)"
      unfolding mean_def by (rule Cons.IH[OF l lt a b])
    finally show ?thesis unfolding tk mean_def .
  qed
qed

text \<open>What \<open>on_train_end\<close> computes: the mean of the oldest
  \<open>min (length ws) (epoch_count + 1)\<close> retained snapshots.\<close>

lemma on_train_end_mean:
  assumes "weights a = w0 # ws" and "0 \<le> epoch_count a"
    and "\<forall>w \<in> set (w0 # ws). length w = n"
  shows "fst (snd (on_train_end a current))
         = map (\<lambda>i. sum_list (map (\<lambda>w. w ! i) (take (nat (epoch_count a) + 1) (w0 # ws)))
                      / real (length (take (nat (epoch_count a) + 1) (w0 # ws)))) [0..<n]"
proof (cases "epoch_count a = 0")
  case True
  have "map (\<lambda>i. w0 ! i) [0..<n] = w0" using assms(3) map_nth[of w0] by auto
  then show ?thesis using True assms(1) by (simp add: on_train_end_def avg_step_first)
next
  case False
  then have ec: "int (length [w0]) \<le> epoch_count a" using assms(2) by simp
  have w0: "map (\<lambda>i. sum_list (map (\<lambda>w. w ! i) [w0]) / real (length [w0])) [0..<n] = w0"
    using assms(3) map_nth[of w0] by auto
  have a1: "0 < length [w0]" by simp
  have a3: "\<forall>w \<in> set [w0]. length w = n" using assms(3) by simp
  have a4: "\<forall>w \<in> set ws. length w = n" using assms(3) by simp
  have t: "[w0] @ take (nat (epoch_count a - int (length [w0])) + 1) ws
           = take (nat (epoch_count a) + 1) (w0 # ws)"
    using False assms(2) by (simp add: nat_diff_distrib')
  from avg_loop_mean[OF a1 ec a3 a4] False
  show ?thesis
    unfolding t using assms(1,2) w0 by (simp add: on_train_end_def avg_step_first Let_def)
qed

section \<open>Properties of the double-precision numbers\<close>

lemma fadd_commute: "fadd x y = fadd y x"
  by (cases x; cases y) (simp_all add: add.commute)

text \<open>Rounding at work: \<open>0.1 + 0.2\<close> is \<open>0.30000000000000004\<close>; a sum halfway between two
  \<open>float64\<close> values goes to the one with the even last digit (\<open>2 ^ 53 + 1\<close> to \<open>2 ^ 53\<close>,
  \<open>2 ^ 53 + 3\<close> to \<open>2 ^ 53 + 4\<close>); a sum of magnitude \<open>2 ^ 1024\<close> is infinite.\<close>

lemma fadd_tenth_fifth:
  "fadd (Finite (3602879701896397 / 2 ^ 55)) (Finite (3602879701896397 / 2 ^ 54))
   = Finite (1351079888211149 / 2 ^ 52)"
  by code_simp

lemma fadd_ties_to_even:
  "fadd (Finite 9007199254740992) (Finite 1) = Finite 9007199254740992"
  "fadd (Finite 9007199254740992) (Finite 3) = Finite 9007199254740996"
  by code_simp+

lemma fadd_overflow:
  "fadd (Finite (of_int (2 ^ 1023))) (Finite (of_int (2 ^ 1023))) = PosInf"
  by code_simp

text \<open>\<open>np.mean([0.1, 0.2, 0.3])\<close> is \<open>0.20000000000000004\<close>.\<close>

lemma mean_of_three_numbers:
  "np_mean_floats
     [Finite (3602879701896397 / 2 ^ 55), Finite (3602879701896397 / 2 ^ 54),
      Finite (5404319552844595 / 2 ^ 54)]
   = Finite (7205759403792795 / 2 ^ 55)"
  by code_simp

section \<open>Properties of the predictions\<close>

text \<open>Claim C6. The claim has a single model's predictions used unchanged. In ensemble
  mode the name \<open>model2\<close> is not bound, and with exactly one loaded model the code reads
  \<open>model2\<close> instead of \<open>models[0]\<close>: NameError, whatever the model predicts.\<close>

theorem single_model_ensemble_raises:
  "get_predictions predict None [m] n_test n_classes = Inl NameError"
  by (simp add: get_predictions_def)

text \<open>In train mode and in reuse mode \<open>model2\<close> is the one model of \<open>models\<close>, and its
  predictions are the result.\<close>

lemma single_model_bound_is_identity:
  "get_predictions predict (Some m) [m] n_test n_classes = Inr (predict m)"
  by (simp add: get_predictions_def)

text \<open>With two or more models that return arrays of the shape \<open>(n_test, n_classes)\<close> the
  result has that shape and holds, entry by entry, the \<open>float64\<close> sum of the models'
  predictions in order, divided by the number of models, whatever \<open>model2\<close> is.\<close>

lemma store_prediction_shaped:
  assumes "length rs = n_test" and "\<forall>r \<in> set rs. length r = n_classes"
  shows "store_prediction n_test n_classes (Array2 n_classes rs) = Inr rs"
  using assms by (simp add: store_prediction_def broadcast_axis_def list_all_iff map_idI)

lemma store_predictions_shaped:
  assumes "\<forall>m \<in> set models. \<exists>rs. predict m = Array2 n_classes rs \<and> length rs = n_test
             \<and> (\<forall>r \<in> set rs. length r = n_classes)"
  shows "store_predictions predict n_test n_classes models
         = Inr (map (\<lambda>m. case predict m of Array2 c rs \<Rightarrow> rs | Array1 v \<Rightarrow> []) models)"
  using assms
proof (induction models)
  case Nil
  then show ?case by simp
next
  case (Cons m models)
  then obtain rs where rs: "predict m = Array2 n_classes rs" "length rs = n_test"
    "\<forall>r \<in> set rs. length r = n_classes" by auto
  have "store_prediction n_test n_classes (predict m) = Inr rs"
    using store_prediction_shaped[OF rs(2,3)] rs(1) by simp
  moreover have "store_predictions predict n_test n_classes models
         = Inr (map (\<lambda>m. case predict m of Array2 c rs \<Rightarrow> rs | Array1 v \<Rightarrow> []) models)"
    using Cons by simp
  ultimately show ?case using rs(1) by simp
qed

lemma ensemble_prediction_is_mean:
  assumes "2 \<le> length models"
    and "\<forall>m \<in> set models. \<exists>rs. predict m = Array2 n_classes rs \<and> length rs = n_test
             \<and> (\<forall>r \<in> set rs. length r = n_classes)"
  shows "get_predictions predict model2 models n_test n_classes =
           Inr (Array2 n_classes
                 (map (\<lambda>i. map (\<lambda>k. fdiv (foldl fadd (Finite 0)
                                            (map (\<lambda>m. (case predict m of Array2 c rs \<Rightarrow> rs
                                                                       | Array1 v \<Rightarrow> []) ! i ! k)
                                                 models))
                                        (length models))
                           [0..<n_classes])
                    [0..<n_test]))"
  using assms(1) store_predictions_shaped[OF assms(2)]
  by (simp add: get_predictions_def np_average_axis0_def comp_def)

section \<open>Properties of the ensemble loading\<close>

text \<open>The models loaded and the lines printed, read off the list of paths.\<close>

lemma load_models_acc:
  "load_models files (models, out) =
     (models @ List.map_filter
                 (\<lambda>f. if is_file f then (case load_model f of Inr m \<Rightarrow> Some m | Inl e \<Rightarrow> None)
                      else None) files,
      out @ List.map_filter
              (\<lambda>f. if is_file f
                   then Some (case load_model f of
                                Inr m \<Rightarrow> ''Loaded '' @ path f
                              | Inl e \<Rightarrow> ''Problem loading model: '' @ e)
                   else None) files)"
  by (induction files arbitrary: models out)
     (auto simp: List.map_filter_simps split: sum.splits)

text \<open>Every path that is a file is tried in turn. A load that raises is reported (one
  printed line) and adds no model, and the loop goes on with the remaining paths; a load
  that returns adds its model. The branch passes its assertion (with \<open>n_models\<close> the number
  of loaded models) exactly when some file loads.\<close>

lemma ensemble_loading_skips_failures:
  fixes files :: "'m artifact list"
  defines "loaded \<equiv> List.map_filter
             (\<lambda>f. if is_file f then (case load_model f of Inr m \<Rightarrow> Some m | Inl e \<Rightarrow> None)
                  else None) files"
  defines "printed \<equiv> List.map_filter
              (\<lambda>f. if is_file f
                   then Some (case load_model f of
                                Inr m \<Rightarrow> ''Loaded '' @ path f
                              | Inl e \<Rightarrow> ''Problem loading model: '' @ e)
                   else None) files"
  shows "load_models files ([], []) = (loaded, printed)
       \<and> ensemble_branch files =
           (if \<exists>f \<in> set files. is_file f \<and> (\<exists>m. load_model f = Inr m)
            then Inr (loaded, printed, length loaded)
            else Inl AssertionError)"
proof -
  have lm: "load_models files ([], []) = (loaded, printed)"
    using load_models_acc[of files "[]" "[]"] by (simp add: loaded_def printed_def)
  have "loaded \<noteq> [] \<longleftrightarrow> (\<exists>f \<in> set files. is_file f \<and> (\<exists>m. load_model f = Inr m))"
    unfolding loaded_def
    by (induction files) (auto simp: List.map_filter_simps split: sum.splits)
  then show ?thesis using lm by (auto simp: ensemble_branch_def)
qed

text \<open>Claim C9. The claim has the run go on whenever at least one model loads. With one
  artifact that fails to load and one that loads, the failure is reported and skipped and
  the assertion passes with one model; the evaluation lines then read \<open>model2\<close>, which
  ensemble mode never binds, and the run ends with NameError.\<close>

theorem one_loaded_model_run_raises:
  "ensemble_mode_predictions predict
     [\<lparr>path = ''results/m/0/a/model2-fold0.h5'', is_file = True, load_model = Inl ''corrupt''\<rparr>,
      \<lparr>path = ''results/m/0/b/model2-fold0.h5'', is_file = True, load_model = Inr m\<rparr>]
     n_test n_classes = Inl NameError"
  by (simp add: ensemble_mode_predictions_def ensemble_branch_def get_predictions_def)

text \<open>The same holds for every list of artifacts of which exactly one loads.\<close>

lemma exactly_one_loaded_model_raises:
  assumes "ensemble_branch files = Inr ([m], out, n)"
  shows "ensemble_mode_predictions predict files n_test n_classes = Inl NameError"
  using assms by (simp add: ensemble_mode_predictions_def get_predictions_def)

section \<open>Properties of the vocabulary\<close>

text \<open>Updating a dictionary at a key it does not have appends the item.\<close>

lemma update_fresh: "k \<notin> fst ` set al \<Longrightarrow> AList.update k v al = al @ [(k, v)]"
  by (induction al) auto

lemma fold_update_fresh:
  assumes "distinct (map fst kvs)" and "fst ` set kvs \<inter> fst ` set d = {}"
  shows "fold (\<lambda>(k, v) d. AList.update k v d) kvs d = d @ kvs"
  using assms
proof (induction kvs arbitrary: d)
  case Nil
  then show ?case by simp
next
  case (Cons kv kvs)
  obtain k v where kv: "kv = (k, v)" by (cases kv)
  have fresh: "k \<notin> fst ` set d" using Cons.prems kv by auto
  have a: "distinct (map fst kvs)" using Cons.prems by simp
  have b: "fst ` set kvs \<inter> fst ` set (d @ [(k, v)]) = {}"
    using Cons.prems kv by (auto simp: image_iff)
  have "fold (\<lambda>(k, v) d. AList.update k v d) kvs (d @ [(k, v)]) = (d @ [(k, v)]) @ kvs"
    using a b by (rule Cons.IH)
  then show ?case using fresh kv by (simp add: update_fresh)
qed

lemma fold_update_swap:
  "fold (\<lambda>(a, b) d. AList.update b a d) xs d =
   fold (\<lambda>(k, v) d. AList.update k v d) (map (\<lambda>(a, b). (b, a)) xs) d"
  by (induction xs arbitrary: d) auto

lemma word2index_zip:
  "word2index w_train = zip (sort (remdups w_train)) [0..<length (remdups w_train)]"
proof -
  let ?ws = "sort (remdups w_train)"
  have d: "distinct (map fst (zip ?ws [0..<length ?ws]))" by simp
  have m: "map (\<lambda>(j, w). (w, j)) (enumerate 0 ?ws) = zip ?ws [0..<length ?ws]"
    unfolding enumerate_eq_zip using zip_commute[of ?ws "[0..<length ?ws]"] by simp
  have "word2index w_train = fold (\<lambda>(k, v) d. AList.update k v d) (zip ?ws [0..<length ?ws]) []"
    unfolding word2index_def fold_update_swap m ..
  also have "\<dots> = [] @ zip ?ws [0..<length ?ws]"
    using d by (rule fold_update_fresh) simp
  finally show ?thesis by simp
qed

lemma index2word_zip:
  "index2word w_train = zip [0..<length (remdups w_train)] (sort (remdups w_train))"
proof -
  let ?ws = "sort (remdups w_train)"
  have d: "distinct (map fst (zip [0..<length ?ws] ?ws))" by simp
  have m: "map (\<lambda>(w, j). (j, w)) (zip ?ws [0..<length ?ws]) = zip [0..<length ?ws] ?ws"
    using zip_commute[of "[0..<length ?ws]" ?ws] by simp
  have "index2word w_train = fold (\<lambda>(k, v) d. AList.update k v d) (zip [0..<length ?ws] ?ws) []"
    unfolding index2word_def fold_update_swap word2index_zip using m by simp
  also have "\<dots> = [] @ zip [0..<length ?ws] ?ws"
    using d by (rule fold_update_fresh) simp
  finally show ?thesis by simp
qed

lemma word2index_sorted_list:
  "word2index ws = zip (sorted_list_of_set (set ws)) [0..<card (set ws)]"
  by (simp add: word2index_zip sorted_list_of_set_sort_remdups length_remdups_card_conv)

lemma word2index_nth:
  assumes "i < card (set ws)"
  shows "map_of (word2index ws) (sorted_list_of_set (set ws) ! i) = Some i"
proof -
  let ?xs = "sorted_list_of_set (set ws)"
  have l: "length ?xs = length [0..<card (set ws)]" by simp
  have d: "distinct ?xs" by simp
  have i: "i < length [0..<card (set ws)]" using assms by simp
  from map_of_zip_nth[OF l d i] show ?thesis using assms by (simp add: word2index_sorted_list)
qed

text \<open>Claim C8. The items of \<open>word2index\<close> are the distinct training words in sorted order,
  numbered \<open>0, 1, ...\<close> in that order; so the lookup is a bijection from the set of training
  words onto \<open>{0..<|W|}\<close> that preserves the order of the words, and two training lists with
  the same set of words give the same dictionary.\<close>

theorem vocabulary_is_sorted_bijection:
  "map fst (word2index ws) = sorted_list_of_set (set ws)
   \<and> map snd (word2index ws) = [0..<card (set ws)]
   \<and> bij_betw (\<lambda>w. the (map_of (word2index ws) w)) (set ws) {0..<card (set ws)}
   \<and> (\<forall>w \<in> set ws. \<forall>w' \<in> set ws.
        w < w' \<longleftrightarrow> the (map_of (word2index ws) w) < the (map_of (word2index ws) w'))
   \<and> (\<forall>ws'. set ws' = set ws \<longrightarrow> word2index ws' = word2index ws)"
proof -
  let ?xs = "sorted_list_of_set (set ws)"
  let ?n = "card (set ws)"
  let ?f = "\<lambda>w. the (map_of (word2index ws) w)"
  have len: "length ?xs = ?n" by simp
  have setxs: "set ?xs = set ws" by simp
  have f_nth: "?f (?xs ! i) = i" if "i < ?n" for i
    using word2index_nth[OF that] by simp
  have ex: "\<exists>i < ?n. w = ?xs ! i" if "w \<in> set ws" for w
    using that setxs len by (metis in_set_conv_nth)
  have a: "map fst (word2index ws) = ?xs" by (simp add: word2index_sorted_list)
  have b: "map snd (word2index ws) = [0..<?n]" by (simp add: word2index_sorted_list)
  have c: "bij_betw ?f (set ws) {0..<?n}"
  proof (rule bij_betw_byWitness[where f' = "\<lambda>i. ?xs ! i"])
    show "\<forall>w \<in> set ws. ?xs ! ?f w = w" using ex f_nth by fastforce
    show "\<forall>i \<in> {0..<?n}. ?f (?xs ! i) = i" using f_nth by simp
    show "?f ` set ws \<subseteq> {0..<?n}" using ex f_nth by fastforce
    show "(\<lambda>i. ?xs ! i) ` {0..<?n} \<subseteq> set ws" using setxs len by (metis atLeastLessThan_iff image_subsetI nth_mem)
  qed
  have d: "\<forall>w \<in> set ws. \<forall>w' \<in> set ws. w < w' \<longleftrightarrow> ?f w < ?f w'"
  proof (intro ballI)
    fix w w' assume "w \<in> set ws" "w' \<in> set ws"
    then obtain i j where i: "i < ?n" "w = ?xs ! i" and j: "j < ?n" "w' = ?xs ! j"
      using ex by blast
    have ss: "sorted_wrt (<) ?xs" by (rule strict_sorted_list_of_set)
    have "?xs ! i < ?xs ! j \<longleftrightarrow> i < j"
    proof
      assume "i < j"
      then show "?xs ! i < ?xs ! j" using ss j len by (simp add: sorted_wrt_nth_less)
    next
      assume lt: "?xs ! i < ?xs ! j"
      show "i < j"
      proof (rule ccontr)
        assume "\<not> i < j"
        then have "j = i \<or> j < i" by auto
        then have "?xs ! j \<le> ?xs ! i"
          using ss i len by (auto simp: sorted_wrt_nth_less less_imp_le)
        with lt show False by simp
      qed
    qed
    then show "w < w' \<longleftrightarrow> ?f w < ?f w'" using i j f_nth by simp
  qed
  have e: "\<forall>ws'. set ws' = set ws \<longrightarrow> word2index ws' = word2index ws"
    by (simp add: word2index_sorted_list)
  from a b c d e show ?thesis by blast
qed

theorem vocabulary_is_sorted_bijection_witness:
  "word2index [''b'', ''a'', ''b'', ''ab''] = [(''a'', 0), (''ab'', 1), (''b'', 2)]
   \<and> word2index [''ab'', ''b'', ''a''] = word2index [''b'', ''a'', ''b'', ''ab'']
   \<and> the (map_of (word2index [''b'', ''a'', ''b'', ''ab'']) ''a'')
       < the (map_of (word2index [''b'', ''a'', ''b'', ''ab'']) ''b'')"
proof -
  have s: "set [''ab'', ''b'', ''a''] = set [''b'', ''a'', ''b'', ''ab'']" by auto
  have v: "word2index [''b'', ''a'', ''b'', ''ab''] = [(''a'', 0), (''ab'', 1), (''b'', 2)]"
    by (simp add: word2index_zip upt_rec less_char_def)
  have lt: "''a'' < ''b''" by (simp add: less_char_def)
  from vocabulary_is_sorted_bijection[of "[''b'', ''a'', ''b'', ''ab'']"] s v lt
  show ?thesis by auto
qed

section \<open>Properties of the results aggregation\<close>

lemma values_of_present:
  assumes "\<forall>tr \<in> set frs. map_of tr k \<noteq> None"
  shows "values_of k frs = Inr (map (\<lambda>tr. the (map_of tr k)) frs)"
  using assms by (induction frs) auto

lemma pd_concat_frames:
  assumes "\<forall>v \<in> set vs. is_DataFrame v"
  shows "pd_concat vs = Inr (concat (map rows_of vs))"
  using assms by (induction vs rule: pd_concat.induct) auto

lemma agg_frames:
  assumes "vs \<noteq> []" and "\<forall>v \<in> set vs. is_DataFrame v"
  shows "agg mean_with_frames vs = Inr (DataFrame (concat (map rows_of vs)))"
proof -
  from assms obtain rows rest where "vs = DataFrame rows # rest"
    by (cases vs) (auto simp: metric.disc_eq_case split: metric.splits)
  then show ?thesis using pd_concat_frames[OF assms(2)] by (simp add: agg_def)
qed

lemma agg_scalars:
  assumes "vs \<noteq> []" and "\<forall>v \<in> set vs. is_Scalar v"
  shows "agg mean_with_frames vs = Inr (Scalar (np_mean_floats (map scalar_of vs)))"
proof -
  from assms obtain x rest where "vs = Scalar x # rest"
    by (cases vs) (auto simp: metric.disc_eq_case split: metric.splits)
  then show ?thesis using assms(2) by (simp add: agg_def np_mean_def list_all_iff)
qed

text \<open>Fewer than 8 numbers are added in order, starting from 0.\<close>

lemma np_mean_floats_short:
  assumes "length a < 8"
  shows "np_mean_floats a = fdiv (fadd (Finite 0) (foldl fadd (Finite 0) a)) (length a)"
  using assms by (simp add: np_mean_floats_def np_sum_def pairwise_sum.simps)

lemma aggregate_loop_uniform:
  fixes frs :: "'r results list"
  defines "val \<equiv> \<lambda>k. if is_DataFrame (the (map_of (hd frs) k))
              then DataFrame (concat (map (\<lambda>tr. rows_of (the (map_of tr k))) frs))
              else Scalar (np_mean_floats (map (\<lambda>tr. scalar_of (the (map_of tr k))) frs))"
  assumes ne: "frs \<noteq> []"
    and dist: "distinct keys"
    and fresh: "\<forall>k \<in> set keys. ''avg_'' @ k \<notin> fst ` set acc"
    and uniform: "\<forall>k \<in> set keys.
            (\<forall>tr \<in> set frs. \<exists>v. map_of tr k = Some v \<and> is_DataFrame v)
          \<or> (\<forall>tr \<in> set frs. \<exists>v. map_of tr k = Some v \<and> is_Scalar v)"
  shows "aggregate_loop mean_with_frames keys frs acc
         = Inr (acc @ map (\<lambda>k. (''avg_'' @ k, val k)) keys)"
  using dist fresh uniform
proof (induction keys arbitrary: acc)
  case Nil
  then show ?case by simp
next
  case (Cons k keys)
  let ?vs = "map (\<lambda>tr. the (map_of tr k)) frs"
  from Cons.prems(3) have u: "(\<forall>tr \<in> set frs. \<exists>v. map_of tr k = Some v \<and> is_DataFrame v)
          \<or> (\<forall>tr \<in> set frs. \<exists>v. map_of tr k = Some v \<and> is_Scalar v)" by simp
  then have present: "\<forall>tr \<in> set frs. map_of tr k \<noteq> None" by auto
  have vals: "values_of k frs = Inr ?vs" by (rule values_of_present[OF present])
  have vne: "?vs \<noteq> []" using ne by simp
  have hd_in: "hd frs \<in> set frs" using ne by simp
  have aggv: "agg mean_with_frames ?vs = Inr (val k)"
  proof (cases "\<forall>tr \<in> set frs. \<exists>v. map_of tr k = Some v \<and> is_DataFrame v")
    case True
    then have all: "\<forall>v \<in> set ?vs. is_DataFrame v" by fastforce
    have "is_DataFrame (the (map_of (hd frs) k))" using True hd_in by fastforce
    then show ?thesis using agg_frames[OF vne all] by (simp add: val_def comp_def)
  next
    case False
    with u have sc: "\<forall>tr \<in> set frs. \<exists>v. map_of tr k = Some v \<and> is_Scalar v" by blast
    then have all: "\<forall>v \<in> set ?vs. is_Scalar v" by fastforce
    have "is_Scalar (the (map_of (hd frs) k))" using sc hd_in by fastforce
    then have "\<not> is_DataFrame (the (map_of (hd frs) k))"
      by (cases "the (map_of (hd frs) k)") auto
    then show ?thesis using agg_scalars[OF vne all] by (simp add: val_def comp_def)
  qed
  have fr: "''avg_'' @ k \<notin> fst ` set acc" using Cons.prems(2) by simp
  have upd: "AList.update (''avg_'' @ k) (val k) acc = acc @ [(''avg_'' @ k, val k)]"
    by (rule update_fresh[OF fr])
  have d': "distinct keys" using Cons.prems(1) by simp
  have f': "\<forall>k' \<in> set keys. ''avg_'' @ k' \<notin> fst ` set (acc @ [(''avg_'' @ k, val k)])"
    using Cons.prems(1,2) by auto
  have u': "\<forall>k \<in> set keys.
            (\<forall>tr \<in> set frs. \<exists>v. map_of tr k = Some v \<and> is_DataFrame v)
          \<or> (\<forall>tr \<in> set frs. \<exists>v. map_of tr k = Some v \<and> is_Scalar v)"
    using Cons.prems(3) by simp
  from Cons.IH[OF d' f' u'] upd show ?case by (simp add: vals aggv)
qed

lemma map_of_keyed:
  assumes "k \<in> set keys"
  shows "map_of (map (\<lambda>k. (''avg_'' @ k, val k)) keys) (''avg_'' @ k) = Some (val k)"
  using assms by (induction keys) auto

text \<open>Claim C7, as amended. Let the fold results be non-empty, let fold 0's record have each
  key once, and let every key of fold 0 be present in every fold with values of one kind
  (all data frames or all numbers). Then the aggregation returns a summary whose keys are
  exactly \<open>avg_\<close> followed by the keys of fold 0, in fold 0's order; under a key whose values
  are data frames it holds the rows of all folds appended in fold order; under a key whose
  values are numbers it holds \<open>np.mean\<close> of the per-fold values, that is their \<open>float64\<close> sum
  (fewer than 8 values are added in fold order) divided by the number of folds, every
  operation rounded.\<close>

theorem results_aggregation_by_key:
  fixes fold_results :: "'r results list"
  assumes ne: "fold_results \<noteq> []"
    and keys: "distinct (map fst (hd fold_results))"
    and uniform: "\<forall>k \<in> fst ` set (hd fold_results).
            (\<forall>tr \<in> set fold_results. \<exists>v. map_of tr k = Some v \<and> is_DataFrame v)
          \<or> (\<forall>tr \<in> set fold_results. \<exists>v. map_of tr k = Some v \<and> is_Scalar v)"
  shows "\<exists>summary. aggregate_results mean_with_frames fold_results = Inr summary
       \<and> map fst summary = map (\<lambda>k. ''avg_'' @ k) (map fst (hd fold_results))
       \<and> (\<forall>k \<in> fst ` set (hd fold_results).
            (is_DataFrame (the (map_of (hd fold_results) k)) \<longrightarrow>
               map_of summary (''avg_'' @ k)
                 = Some (DataFrame (concat (map (\<lambda>tr. rows_of (the (map_of tr k))) fold_results))))
          \<and> (is_Scalar (the (map_of (hd fold_results) k)) \<longrightarrow>
               map_of summary (''avg_'' @ k)
                 = Some (Scalar (np_mean_floats
                                   (map (\<lambda>tr. scalar_of (the (map_of tr k))) fold_results)))))"
proof -
  let ?ks = "map fst (hd fold_results)"
  let ?val = "\<lambda>k. if is_DataFrame (the (map_of (hd fold_results) k))
              then DataFrame (concat (map (\<lambda>tr. rows_of (the (map_of tr k))) fold_results))
              else Scalar (np_mean_floats (map (\<lambda>tr. scalar_of (the (map_of tr k))) fold_results))"
  let ?summary = "map (\<lambda>k. (''avg_'' @ k, ?val k)) ?ks"
  have fresh: "\<forall>k \<in> set ?ks. ''avg_'' @ k \<notin> fst ` set ([] :: 'r results)" by simp
  have uni: "\<forall>k \<in> set ?ks.
            (\<forall>tr \<in> set fold_results. \<exists>v. map_of tr k = Some v \<and> is_DataFrame v)
          \<or> (\<forall>tr \<in> set fold_results. \<exists>v. map_of tr k = Some v \<and> is_Scalar v)"
    using uniform by simp
  have loop: "aggregate_loop mean_with_frames ?ks fold_results [] = Inr ?summary"
    using aggregate_loop_uniform[OF ne keys fresh uni] by simp
  have res: "aggregate_results mean_with_frames fold_results = Inr ?summary"
    using ne loop by (cases fold_results) (simp_all add: aggregate_results_def)
  have fsts: "map fst ?summary = map (\<lambda>k. ''avg_'' @ k) ?ks" by (simp add: comp_def)
  have look: "map_of ?summary (''avg_'' @ k) = Some (?val k)" if "k \<in> set ?ks" for k
    by (rule map_of_keyed[OF that])
  have vals: "(is_DataFrame (the (map_of (hd fold_results) k)) \<longrightarrow>
               map_of ?summary (''avg_'' @ k)
                 = Some (DataFrame (concat (map (\<lambda>tr. rows_of (the (map_of tr k))) fold_results))))
          \<and> (is_Scalar (the (map_of (hd fold_results) k)) \<longrightarrow>
               map_of ?summary (''avg_'' @ k)
                 = Some (Scalar (np_mean_floats
                                   (map (\<lambda>tr. scalar_of (the (map_of tr k))) fold_results))))"
    if k: "k \<in> fst ` set (hd fold_results)" for k
  proof (intro conjI impI)
    have kin: "k \<in> set ?ks" using k by simp
    show "map_of ?summary (''avg_'' @ k)
            = Some (DataFrame (concat (map (\<lambda>tr. rows_of (the (map_of tr k))) fold_results)))"
      if "is_DataFrame (the (map_of (hd fold_results) k))"
      using look[OF kin] that by simp
    show "map_of ?summary (''avg_'' @ k)
            = Some (Scalar (np_mean_floats
                              (map (\<lambda>tr. scalar_of (the (map_of tr k))) fold_results)))"
      if "is_Scalar (the (map_of (hd fold_results) k))"
    proof -
      from that have "\<not> is_DataFrame (the (map_of (hd fold_results) k))"
        by (cases "the (map_of (hd fold_results) k)") auto
      then show ?thesis using look[OF kin] by simp
    qed
  qed
  show ?thesis
    apply (rule exI[of _ ?summary])
    apply (rule conjI, rule res)
    apply (rule conjI, rule fsts)
    apply (rule ballI)
    apply (rule vals)
    apply assumption
    done
qed

theorem results_aggregation_by_key_witness:
  "\<exists>summary.
     aggregate_results (\<lambda>vs. Inl ValueError)
       [[(''acc'', Scalar (Finite 1)), (''df'', DataFrame [1 :: nat, 2])],
        [(''df'', DataFrame [3]), (''acc'', Scalar (Finite 2))]] = Inr summary
     \<and> map fst summary = [''avg_acc'', ''avg_df'']
     \<and> map_of summary ''avg_acc'' = Some (Scalar (Finite (3 / 2)))
     \<and> map_of summary ''avg_df'' = Some (DataFrame [1, 2, 3])"
proof -
  let ?frs = "[[(''acc'', Scalar (Finite 1)), (''df'', DataFrame [1 :: nat, 2])],
               [(''df'', DataFrame [3]), (''acc'', Scalar (Finite 2))]]"
  have h1: "?frs \<noteq> []" by simp
  have h2: "distinct (map fst (hd ?frs))" by simp
  have h3: "\<forall>k \<in> fst ` set (hd ?frs).
            (\<forall>tr \<in> set ?frs. \<exists>v. map_of tr k = Some v \<and> is_DataFrame v)
          \<or> (\<forall>tr \<in> set ?frs. \<exists>v. map_of tr k = Some v \<and> is_Scalar v)"
    by simp
  have mean: "np_mean_floats [Finite 1, Finite 2] = Finite (3 / 2)"
    by code_simp
  from results_aggregation_by_key[OF h1 h2 h3, of "\<lambda>vs. Inl ValueError"]
  obtain summary where s: "aggregate_results (\<lambda>vs. Inl ValueError) ?frs = Inr summary"
    and f: "map fst summary = map (\<lambda>k. ''avg_'' @ k) (map fst (hd ?frs))"
    and v: "\<forall>k \<in> fst ` set (hd ?frs).
            (is_DataFrame (the (map_of (hd ?frs) k)) \<longrightarrow>
               map_of summary (''avg_'' @ k)
                 = Some (DataFrame (concat (map (\<lambda>tr. rows_of (the (map_of tr k))) ?frs))))
          \<and> (is_Scalar (the (map_of (hd ?frs) k)) \<longrightarrow>
               map_of summary (''avg_'' @ k)
                 = Some (Scalar (np_mean_floats
                                   (map (\<lambda>tr. scalar_of (the (map_of tr k))) ?frs))))"
    by blast
  from v mean have "map_of summary ''avg_acc'' = Some (Scalar (Finite (3 / 2)))"
    and "map_of summary ''avg_df'' = Some (DataFrame [1, 2, 3])"
    by simp_all
  with s f show ?thesis by simp
qed

text \<open>Five equal numbers whose mean is not that number.\<close>

lemma mean_of_five_equal_numbers:
  "np_mean_floats
     [Finite (8070450532247929 / 2 ^ 60), Finite (8070450532247929 / 2 ^ 60),
      Finite (8070450532247929 / 2 ^ 60), Finite (8070450532247929 / 2 ^ 60),
      Finite (8070450532247929 / 2 ^ 60)]
   = Finite (8070450532247930 / 2 ^ 60)"
  by code_simp

text \<open>Claim C7 as stated fails where it has equal folds give their value back: the mean of
  five folds that all hold 0.007 (the \<open>float64\<close> \<open>8070450532247929 / 2 ^ 60\<close>) is the next
  \<open>float64\<close>, 0.007000000000000001, since the running sum is rounded after every
  addition and the quotient once more.\<close>

theorem equal_folds_mean_counterexample:
  "aggregate_results (\<lambda>vs. Inl ValueError)
     [[(''accuracy'', Scalar (Finite (8070450532247929 / 2 ^ 60)) :: unit metric)],
      [(''accuracy'', Scalar (Finite (8070450532247929 / 2 ^ 60)))],
      [(''accuracy'', Scalar (Finite (8070450532247929 / 2 ^ 60)))],
      [(''accuracy'', Scalar (Finite (8070450532247929 / 2 ^ 60)))],
      [(''accuracy'', Scalar (Finite (8070450532247929 / 2 ^ 60)))]]
   = Inr [(''avg_accuracy'', Scalar (Finite (8070450532247930 / 2 ^ 60)))]
   \<and> Finite (8070450532247930 / 2 ^ 60) \<noteq> Finite (8070450532247929 / 2 ^ 60)"
  using mean_of_five_equal_numbers
  by (simp add: aggregate_results_def agg_def np_mean_def)

text \<open>Equal folds do give their value back when no addition and no division rounds, as
  for the count 1200 and for 0.5.\<close>

lemma mean_of_five_equal_counts:
  "np_mean_floats [Finite 1200, Finite 1200, Finite 1200, Finite 1200, Finite 1200] = Finite 1200"
  by code_simp

lemma mean_of_five_halves:
  "np_mean_floats [Finite (1 / 2), Finite (1 / 2), Finite (1 / 2), Finite (1 / 2), Finite (1 / 2)]
   = Finite (1 / 2)"
  by code_simp

end
